theory Spec2Isabelle
  imports Complex_Main
begin

section \<open>JavaScript strings\<close>

text \<open>
  A JavaScript string is modelled as a HOL \<open>string\<close>; a \<open>char\<close> stands for the
  code unit of the same number (U+0000 to U+00FF). The string methods the sources call
  are given below with the meaning ECMAScript gives them on such strings.
\<close>

definition startsWith :: "string \<Rightarrow> string \<Rightarrow> bool" where
  \<comment> \<open>\<open>s.startsWith(p)\<close>\<close>
  "startsWith s p = (take (length p) s = p)"

definition padStart :: "string \<Rightarrow> nat \<Rightarrow> char \<Rightarrow> string" where
  \<comment> \<open>\<open>s.padStart(n, c)\<close>: nothing is cut when \<open>s\<close> is already longer\<close>
  "padStart s n c = replicate (n - length s) c @ s"

definition padEnd :: "string \<Rightarrow> nat \<Rightarrow> char \<Rightarrow> string" where
  \<comment> \<open>\<open>s.padEnd(n, c)\<close>\<close>
  "padEnd s n c = s @ replicate (n - length s) c"

definition toLowerChar :: "char \<Rightarrow> char" where
  \<comment> \<open>the lower-case mapping of the code units below U+0100: A-Z, and the Latin-1
      capitals U+00C0 to U+00DE without the multiplication sign U+00D7\<close>
  "toLowerChar c =
     (let n = (of_char c :: nat) in
      if (65 \<le> n \<and> n \<le> 90) \<or> (192 \<le> n \<and> n \<le> 222 \<and> n \<noteq> 215)
      then char_of (n + 32) else c)"

definition toLowerCase :: "string \<Rightarrow> string" where
  "toLowerCase s = map toLowerChar s"

section \<open>Regular expressions\<close>

text \<open>
  The sources validate and trim strings with regular-expression literals. The fragment
  they use is embedded as a datatype with a backtracking matcher: \<open>rmatch r s\<close> lists,
  in the order a backtracking engine tries them, the rests of \<open>s\<close> that remain after a
  match of \<open>r\<close> at the start of \<open>s\<close>. Quantifiers are greedy, as in JavaScript.
\<close>

datatype regex =
    Lit char                      \<comment> \<open>a literal character\<close>
  | Cls "(char \<times> char) list"      \<comment> \<open>a character class, as a list of ranges\<close>
  | Cat regex regex               \<comment> \<open>concatenation\<close>
  | Opt regex                     \<comment> \<open>\<open>r?\<close>\<close>
  | Plus regex                    \<comment> \<open>\<open>r+\<close>\<close>
  | Times nat regex               \<comment> \<open>\<open>r{n}\<close>\<close>
  | Eol                           \<comment> \<open>\<open>$\<close> (no \<open>m\<close> flag: end of input only)\<close>

fun rsize :: "regex \<Rightarrow> nat" where
  "rsize (Lit c) = 1"
| "rsize (Cls rs) = 1"
| "rsize (Cat a b) = Suc (rsize a + rsize b)"
| "rsize (Opt a) = Suc (rsize a)"
| "rsize (Plus a) = Suc (rsize a)"
| "rsize (Times n a) = Suc (n + rsize a)"
| "rsize Eol = 1"

definition inRanges :: "(char \<times> char) list \<Rightarrow> char \<Rightarrow> bool" where
  "inRanges rs c =
     list_ex (\<lambda>(lo, hi). (of_char lo :: nat) \<le> of_char c \<and> (of_char c :: nat) \<le> of_char hi) rs"

function (sequential) rmatch :: "regex \<Rightarrow> string \<Rightarrow> string list" where
  "rmatch (Lit c) s = (case s of [] \<Rightarrow> [] | x # xs \<Rightarrow> if x = c then [xs] else [])"
| "rmatch (Cls rs) s = (case s of [] \<Rightarrow> [] | x # xs \<Rightarrow> if inRanges rs x then [xs] else [])"
| "rmatch (Cat a b) s = concat (map (rmatch b) (rmatch a s))"
| "rmatch (Opt a) s = rmatch a s @ [s]"
| "rmatch (Plus a) s =
     concat (map (\<lambda>t. (if length t < length s then rmatch (Plus a) t else []) @ [t])
                 (rmatch a s))"
| "rmatch (Times 0 a) s = [s]"
| "rmatch (Times (Suc n) a) s = concat (map (rmatch (Times n a)) (rmatch a s))"
| "rmatch Eol s = (if s = [] then [s] else [])"
  by pat_completeness auto
termination
  by (relation "measures [\<lambda>(r, s). rsize r, \<lambda>(r, s). length s]") auto

text \<open>
  A pattern is a regular expression with or without the anchor \<open>^\<close> in front.
  \<open>regexTest\<close> is \<open>RegExp.prototype.test\<close>: an anchored pattern is tried at the start
  of the string only, a floating one at every position from the left.
\<close>

datatype pattern = Anchored regex | Floating regex

fun matchesSomewhere :: "regex \<Rightarrow> string \<Rightarrow> bool" where
  "matchesSomewhere r [] = (rmatch r [] \<noteq> [])"
| "matchesSomewhere r (c # cs) = (rmatch r (c # cs) \<noteq> [] \<or> matchesSomewhere r cs)"

fun regexTest :: "pattern \<Rightarrow> string \<Rightarrow> bool" where
  "regexTest (Anchored r) s = (rmatch r s \<noteq> [])"
| "regexTest (Floating r) s = matchesSomewhere r s"

text \<open>
  \<open>s.replace(/r/, '')\<close> for a floating pattern without the \<open>g\<close> flag: the leftmost
  match, in the engine's preference order, is cut out; a string with no match is
  returned as it is.
\<close>

fun replaceFirstEmpty :: "regex \<Rightarrow> string \<Rightarrow> string" where
  "replaceFirstEmpty r [] = []"
| "replaceFirstEmpty r (c # cs) =
     (case rmatch r (c # cs) of t # _ \<Rightarrow> t | [] \<Rightarrow> c # replaceFirstEmpty r cs)"

section \<open>Errors\<close>

datatype error =
    InvalidAddress string     \<comment> \<open>\<open>new Error(`Invalid address: ${address}`)\<close>\<close>
  | SyntaxError string        \<comment> \<open>thrown by \<open>BigInt(s)\<close> on a string it cannot read\<close>
  | RequestError string       \<comment> \<open>a rejected HTTP request or a JSON-RPC error object\<close>

section \<open>utils/helpers: addresses\<close>

definition hexClass :: regex where
  \<comment> \<open>\<open>[a-fA-F0-9]\<close>\<close>
  "hexClass = Cls [(CHR ''a'', CHR ''f''), (CHR ''A'', CHR ''F''), (CHR ''0'', CHR ''9'')]"

definition addressPattern :: pattern where
  \<comment> \<open>\<open>/^0x[a-fA-F0-9]{40}$/\<close>\<close>
  "addressPattern =
     Anchored (Cat (Lit CHR ''0'') (Cat (Lit CHR ''x'') (Cat (Times 40 hexClass) Eol)))"

definition isValidAddress :: "string \<Rightarrow> bool" where
  \<comment> \<open>utils/helpers\<close>
  "isValidAddress address = regexTest addressPattern address"

definition isValidAddress_client :: "string \<Rightarrow> bool" where
  \<comment> \<open>transport/client: the same test, written out a second time in the source\<close>
  "isValidAddress_client address = regexTest addressPattern address"

definition normalizeAddress :: "string \<Rightarrow> error + string" where
  "normalizeAddress address =
     (let normalized = (if \<not> startsWith address ''0x'' then ''0x'' @ address else address)
      in if \<not> regexTest addressPattern normalized then Inl (InvalidAddress address)
         else Inr (toLowerCase normalized))"

text \<open>The character sets the statements below speak about.\<close>

definition isHexDigit :: "char \<Rightarrow> bool" where
  "isHexDigit c = (c \<in> set ''0123456789abcdefABCDEF'')"

definition isLowerHexDigit :: "char \<Rightarrow> bool" where
  "isLowerHexDigit c = (c \<in> set ''0123456789abcdef'')"

section \<open>JavaScript numbers and BigInts\<close>

text \<open>
  A BigInt is an \<open>int\<close>. A Number is an IEEE 754 double: a finite double is modelled by
  the rational it denotes (the two zeros are one value, they print alike), next to
  \<open>NaN\<close> and the two infinities. \<open>toDouble\<close> is the rounding every conversion to Number
  goes through: to the nearest double, ties to the even significand, with 53 significant
  bits, the smallest exponent -1022 and overflow to an infinity from \<open>2^1024\<close> on.
\<close>

datatype jsnumber = Num rat | NaN | PosInfinity | NegInfinity

function bitLength :: "nat \<Rightarrow> nat" where
  "bitLength n = (if n = 0 then 0 else Suc (bitLength (n div 2)))"
  by pat_completeness auto
termination
  by (relation "measure id") auto

definition floorLog2 :: "rat \<Rightarrow> int" where
  \<comment> \<open>the exponent \<open>e\<close> with \<open>2^e \<le> x < 2^(e+1)\<close>, for \<open>x > 0\<close>\<close>
  "floorLog2 x =
     (if 1 \<le> x then int (bitLength (nat \<lfloor>x\<rfloor>)) - 1
      else - int (bitLength (nat (\<lceil>1 / x\<rceil> - 1))))"

definition pow2 :: "int \<Rightarrow> rat" where
  "pow2 k = (if 0 \<le> k then 2 ^ nat k else 1 / 2 ^ nat (- k))"

definition roundHalfEven :: "rat \<Rightarrow> int" where
  "roundHalfEven x =
     (let f = \<lfloor>x\<rfloor>; d = x - of_int f
      in if d < 1 / 2 then f else if 1 / 2 < d then f + 1 else if even f then f else f + 1)"

definition toDouble :: "rat \<Rightarrow> jsnumber" where
  "toDouble x =
     (if x = 0 then Num 0
      else let a = \<bar>x\<bar>;
               e = max (floorLog2 a) (- 1022);
               q = pow2 (e - 52);
               r = of_int (roundHalfEven (a / q)) * q
           in if 2 ^ 1024 \<le> r then (if x < 0 then NegInfinity else PosInfinity)
              else Num (if x < 0 then - r else r))"

definition bigintToNumber :: "int \<Rightarrow> jsnumber" where
  \<comment> \<open>\<open>Number(b)\<close> for a BigInt \<open>b\<close>\<close>
  "bigintToNumber b = toDouble (of_int b)"

definition jsDivide :: "jsnumber \<Rightarrow> rat \<Rightarrow> jsnumber" where
  \<comment> \<open>\<open>x / d\<close> for a Number \<open>x\<close> and a finite double \<open>d\<close> other than zero\<close>
  "jsDivide x d =
     (case x of
        Num a \<Rightarrow> toDouble (a / d)
      | NaN \<Rightarrow> NaN
      | PosInfinity \<Rightarrow> (if 0 < d then PosInfinity else NegInfinity)
      | NegInfinity \<Rightarrow> (if 0 < d then NegInfinity else PosInfinity))"

definition bigintDiv :: "int \<Rightarrow> int \<Rightarrow> int" where
  \<comment> \<open>BigInt \<open>a / b\<close> for \<open>b\<close> other than zero: the quotient is cut towards zero\<close>
  "bigintDiv a b = sgn a * sgn b * (\<bar>a\<bar> div \<bar>b\<bar>)"

definition bigintRem :: "int \<Rightarrow> int \<Rightarrow> int" where
  \<comment> \<open>BigInt \<open>a % b\<close> for \<open>b\<close> other than zero: the remainder has the sign of \<open>a\<close>\<close>
  "bigintRem a b = sgn a * (\<bar>a\<bar> mod \<bar>b\<bar>)"

subsection \<open>Digits\<close>

definition digitVal :: "char \<Rightarrow> nat option" where
  \<comment> \<open>the value of a digit in a radix up to 16, in either case of the letters\<close>
  "digitVal c =
     (let n = (of_char c :: nat) in
      if 48 \<le> n \<and> n \<le> 57 then Some (n - 48)
      else if 97 \<le> n \<and> n \<le> 102 then Some (n - 87)
      else if 65 \<le> n \<and> n \<le> 70 then Some (n - 55)
      else None)"

definition isRadixDigit :: "nat \<Rightarrow> char \<Rightarrow> bool" where
  "isRadixDigit r c = (case digitVal c of Some v \<Rightarrow> v < r | None \<Rightarrow> False)"

definition radixVal :: "nat \<Rightarrow> string \<Rightarrow> nat" where
  \<comment> \<open>the number a string of digits denotes in radix \<open>r\<close>\<close>
  "radixVal r cs = foldl (\<lambda>acc c. acc * r + (case digitVal c of Some v \<Rightarrow> v | None \<Rightarrow> 0)) 0 cs"

definition digitChar :: "nat \<Rightarrow> char" where
  \<comment> \<open>the digit for a value below 16; letters are printed in lower case\<close>
  "digitChar v = (if v < 10 then char_of (48 + v) else char_of (87 + v))"

function natToRadix :: "nat \<Rightarrow> nat \<Rightarrow> string" where
  "natToRadix r n =
     (if r < 2 \<or> n < r then [digitChar n] else natToRadix r (n div r) @ [digitChar (n mod r)])"
  by pat_completeness auto
termination
  by (relation "measure snd") auto

definition bigintToString :: "nat \<Rightarrow> int \<Rightarrow> string" where
  \<comment> \<open>\<open>b.toString(r)\<close> for a BigInt \<open>b\<close>; \<open>b.toString()\<close> is radix 10\<close>
  "bigintToString r b =
     (if b < 0 then CHR ''-'' # natToRadix r (nat (- b)) else natToRadix r (nat b))"

definition isWhiteSpace :: "char \<Rightarrow> bool" where
  \<comment> \<open>white space and line terminators below U+0100: TAB, LF, VT, FF, CR, SP, NBSP\<close>
  "isWhiteSpace c = ((of_char c :: nat) \<in> {9, 10, 11, 12, 13, 32, 160})"

definition trim :: "string \<Rightarrow> string" where
  "trim s = rev (dropWhile isWhiteSpace (rev (dropWhile isWhiteSpace s)))"

subsection \<open>Reading numbers from strings\<close>

definition parseInt16 :: "string \<Rightarrow> jsnumber" where
  \<comment> \<open>\<open>parseInt(s, 16)\<close>: leading white space, a sign and \<open>0x\<close> or \<open>0X\<close> are skipped, the
      longest run of hexadecimal digits is read (in radix 16 its value is exact) and
      converted to a Number; no digit at all gives \<open>NaN\<close>\<close>
  "parseInt16 s =
     (let s1 = dropWhile isWhiteSpace s;
          neg = (take 1 s1 = ''-'');
          s2 = (if take 1 s1 = ''-'' \<or> take 1 s1 = ''+'' then drop 1 s1 else s1);
          s3 = (if take 2 s2 = ''0x'' \<or> take 2 s2 = ''0X'' then drop 2 s2 else s2);
          z = takeWhile (isRadixDigit 16) s3
      in if z = [] then NaN
         else toDouble (of_int (if neg then - int (radixVal 16 z) else int (radixVal 16 z))))"

definition readDigits :: "nat \<Rightarrow> string \<Rightarrow> string \<Rightarrow> error + int" where
  \<comment> \<open>a non-empty string of digits of radix \<open>r\<close>, or the SyntaxError for the text \<open>s\<close>\<close>
  "readDigits r s d =
     (if d \<noteq> [] \<and> list_all (isRadixDigit r) d then Inr (int (radixVal r d))
      else Inl (SyntaxError s))"

definition stringToBigInt :: "string \<Rightarrow> error + int" where
  \<comment> \<open>\<open>BigInt(s)\<close> for a string: white space around the text is dropped; an empty text is
      0; \<open>0x\<close>, \<open>0o\<close>, \<open>0b\<close> (either case) announce radix 16, 8, 2, without a sign;
      anything else must be decimal digits after an optional sign\<close>
  "stringToBigInt s =
     (let t = trim s in
      if t = [] then Inr 0
      else if take 2 t = ''0x'' \<or> take 2 t = ''0X'' then readDigits 16 s (drop 2 t)
      else if take 2 t = ''0o'' \<or> take 2 t = ''0O'' then readDigits 8 s (drop 2 t)
      else if take 2 t = ''0b'' \<or> take 2 t = ''0B'' then readDigits 2 s (drop 2 t)
      else if take 1 t = ''-'' then map_sum id uminus (readDigits 10 s (drop 1 t))
      else if take 1 t = ''+'' then readDigits 10 s (drop 1 t)
      else readDigits 10 s t)"

subsection \<open>Printing Numbers\<close>

definition numberToString16 :: "jsnumber \<Rightarrow> string option" where
  \<comment> \<open>\<open>x.toString(16)\<close> for a Number. ECMAScript leaves the digits after the point to
      the implementation, so a Number with a fractional part is outside the model
      (\<open>None\<close>); the callers pass block numbers and counts.\<close>
  "numberToString16 x =
     (case x of
        Num a \<Rightarrow> (if of_int \<lfloor>a\<rfloor> = a then Some (bigintToString 16 \<lfloor>a\<rfloor>) else None)
      | NaN \<Rightarrow> Some ''NaN''
      | PosInfinity \<Rightarrow> Some ''Infinity''
      | NegInfinity \<Rightarrow> Some ''-Infinity'')"

section \<open>utils/helpers: hexadecimal conversion\<close>

definition hexToNumber :: "string \<Rightarrow> jsnumber" where
  "hexToNumber hex = (if hex = [] \<or> hex = ''0x'' then Num 0 else parseInt16 hex)"


datatype numeric = OfNumber jsnumber | OfBigInt int

definition numberToHex :: "numeric \<Rightarrow> string option" where
  \<comment> \<open>\<open>'0x' + num.toString(16)\<close>, for \<open>num: number | bigint\<close>\<close>
  "numberToHex num =
     (case num of
        OfNumber x \<Rightarrow> map_option (\<lambda>t. ''0x'' @ t) (numberToString16 x)
      | OfBigInt b \<Rightarrow> Some (''0x'' @ bigintToString 16 b))"

definition calculatePercentage :: "int \<Rightarrow> int \<Rightarrow> jsnumber" where
  "calculatePercentage part total' =
     (if total' = 0 then Num 0
      else jsDivide (bigintToNumber (bigintDiv (part * 10000) total')) 100)"

section \<open>utils/helpers: selectors and call data\<close>

text \<open>
  The selector tables are object literals, read with \<open>selectors[signature]\<close>. Such a
  read finds the object's own properties and, for any other key, the properties every
  object literal inherits from \<open>Object.prototype\<close>. The inherited ones are functions (and,
  for \<open>__proto__\<close>, the prototype object): values that are not strings and are truthy.
\<close>

definition objectPrototypeKeys :: "string list" where
  "objectPrototypeKeys =
     [''constructor'', ''hasOwnProperty'', ''isPrototypeOf'', ''propertyIsEnumerable'',
      ''toLocaleString'', ''toString'', ''valueOf'', ''__proto__'',
      ''__defineGetter__'', ''__defineSetter__'', ''__lookupGetter__'', ''__lookupSetter__'']"

datatype property =
    Own string          \<comment> \<open>an own property of the literal, a string\<close>
  | Inherited string    \<comment> \<open>the member of \<open>Object.prototype\<close> of this name\<close>
  | Undefined

definition getProperty :: "(string \<times> string) list \<Rightarrow> string \<Rightarrow> property" where
  \<comment> \<open>\<open>obj[key]\<close> for an object literal with the given own properties\<close>
  "getProperty obj key =
     (case map_of obj key of
        Some v \<Rightarrow> Own v
      | None \<Rightarrow> if key \<in> set objectPrototypeKeys then Inherited key else Undefined)"

datatype selector =
    Selector string           \<comment> \<open>a string\<close>
  | PrototypeMember string    \<comment> \<open>not a string: the inherited member of this name\<close>

definition orDefault :: "property \<Rightarrow> string \<Rightarrow> selector" where
  \<comment> \<open>\<open>p || d\<close>: \<open>undefined\<close> and the empty string are falsy\<close>
  "orDefault p d =
     (case p of
        Own v \<Rightarrow> if v = [] then Selector d else Selector v
      | Inherited k \<Rightarrow> PrototypeMember k
      | Undefined \<Rightarrow> Selector d)"

definition selectors :: "(string \<times> string) list" where
  "selectors =
     [(''transfer(address,uint256)'', ''0xa9059cbb''),
      (''balanceOf(address)'', ''0x70a08231''),
      (''totalSupply()'', ''0x18160ddd''),
      (''name()'', ''0x06fdde03''),
      (''symbol()'', ''0x95d89b41''),
      (''decimals()'', ''0x313ce567''),
      (''approve(address,uint256)'', ''0x095ea7b3''),
      (''allowance(address,address)'', ''0xdd62ed3e''),
      (''transferFrom(address,address,uint256)'', ''0x23b872dd''),
      (''ownerOf(uint256)'', ''0x6352211e''),
      (''tokenURI(uint256)'', ''0xc87b56dd''),
      (''safeTransferFrom(address,address,uint256)'', ''0x42842e0e'')]"

definition getFunctionSelector :: "string \<Rightarrow> selector" where
  "getFunctionSelector signature = orDefault (getProperty selectors signature) ''0x00000000''"

definition commonSelectors :: "(string \<times> string) list" where
  \<comment> \<open>the table of \<open>calculateFunctionSelector\<close> in actions/utility\<close>
  "commonSelectors =
     [(''transfer(address,uint256)'', ''0xa9059cbb''),
      (''approve(address,uint256)'', ''0x095ea7b3''),
      (''transferFrom(address,address,uint256)'', ''0x23b872dd''),
      (''balanceOf(address)'', ''0x70a08231''),
      (''allowance(address,address)'', ''0xdd62ed3e''),
      (''totalSupply()'', ''0x18160ddd''),
      (''name()'', ''0x06fdde03''),
      (''symbol()'', ''0x95d89b41''),
      (''decimals()'', ''0x313ce567''),
      (''ownerOf(uint256)'', ''0x6352211e''),
      (''tokenURI(uint256)'', ''0xc87b56dd''),
      (''safeTransferFrom(address,address,uint256)'', ''0x42842e0e''),
      (''getApproved(uint256)'', ''0x081812fc'')]"

definition calculateFunctionSelector :: "string \<Rightarrow> selector" where
  "calculateFunctionSelector signature =
     orDefault (getProperty commonSelectors signature) ''0x00000000''"

definition strip0x :: "string \<Rightarrow> string" where
  "strip0x hex = (if startsWith hex ''0x'' then drop 2 hex else hex)"

definition add0x :: "string \<Rightarrow> string" where
  "add0x hex = (if startsWith hex ''0x'' then hex else ''0x'' @ hex)"

definition padHex :: "string \<Rightarrow> nat \<Rightarrow> string" where
  "padHex hex len = (let stripped = strip0x hex in ''0x'' @ padStart stripped len CHR ''0'')"

definition encodeAddress :: "string \<Rightarrow> string" where
  "encodeAddress address = padHex (strip0x address) 64"

definition encodeUint256 :: "string \<Rightarrow> error + string" where
  \<comment> \<open>the argument, \<open>string | number | bigint\<close> in the source, is the string that
      \<open>buildCallData\<close> passes; \<open>BigInt(value)\<close> throws on a string it cannot read\<close>
  "encodeUint256 v =
     (case stringToBigInt v of
        Inl e \<Rightarrow> Inl e
      | Inr bigValue \<Rightarrow> Inr (padHex (bigintToString 16 bigValue) 64))"

record param =
  ptype :: string     \<comment> \<open>the field \<open>type\<close>\<close>
  pvalue :: string    \<comment> \<open>the field \<open>value\<close>\<close>

text \<open>
  \<open>data\<close> in \<open>buildCallData\<close> starts as the selector and grows by \<open>+=\<close>. When the
  selector is an inherited member, \<open>+=\<close> appends to that member's source text, which
  depends on the engine: \<open>MemberText m t\<close> stands for that text followed by \<open>t\<close>.
\<close>

datatype calldata = Data string | Member string | MemberText string string

fun appendData :: "calldata \<Rightarrow> string \<Rightarrow> calldata" where
  "appendData (Data s) t = Data (s @ t)"
| "appendData (Member m) t = MemberText m t"
| "appendData (MemberText m s) t = MemberText m (s @ t)"

fun buildLoop :: "calldata \<Rightarrow> param list \<Rightarrow> error + calldata" where
  "buildLoop data [] = Inr data"
| "buildLoop data (p # ps) =
     (if ptype p = ''address''
      then buildLoop (appendData data (strip0x (encodeAddress (pvalue p)))) ps
      else if ptype p = ''uint256''
      then (case encodeUint256 (pvalue p) of
              Inl e \<Rightarrow> Inl e
            | Inr enc \<Rightarrow> buildLoop (appendData data (strip0x enc)) ps)
      else buildLoop data ps)"

definition buildCallData :: "string \<Rightarrow> param list \<Rightarrow> error + calldata" where
  "buildCallData functionSignature params =
     (let selector = getFunctionSelector functionSignature;
          data = (case selector of Selector s \<Rightarrow> Data s | PrototypeMember m \<Rightarrow> Member m)
      in buildLoop data params)"

text \<open>
  The words the statement about \<open>buildCallData\<close> speaks about: which parameters are
  encoded, which values are well formed (an address of at most 64 hexadecimal digits
  after an optional \<open>0x\<close>; a \<open>uint256\<close> that \<open>BigInt\<close> reads as a number from 0 to
  \<open>2^256 - 1\<close>), and the 64-character word of a parameter, its digits padded with zeros
  on the left.
\<close>

definition encoded :: "param \<Rightarrow> bool" where
  "encoded p = (ptype p = ''address'' \<or> ptype p = ''uint256'')"

definition wellFormedValue :: "param \<Rightarrow> bool" where
  "wellFormedValue p =
     (if ptype p = ''address''
      then length (strip0x (pvalue p)) \<le> 64 \<and> list_all isHexDigit (strip0x (pvalue p))
      else if ptype p = ''uint256''
      then (case stringToBigInt (pvalue p) of Inr b \<Rightarrow> 0 \<le> b \<and> b < 2 ^ 256 | Inl e \<Rightarrow> False)
      else True)"

definition paramWord :: "param \<Rightarrow> string" where
  "paramWord p =
     (if ptype p = ''address'' then padStart (strip0x (pvalue p)) 64 CHR ''0''
      else case stringToBigInt (pvalue p) of
             Inr b \<Rightarrow> padStart (bigintToString 16 b) 64 CHR ''0''
           | Inl e \<Rightarrow> [])"

section \<open>transport/client: CHZ and Wei\<close>

fun splitOn :: "char \<Rightarrow> string \<Rightarrow> string list" where
  \<comment> \<open>\<open>s.split(c)\<close> for a separator of one character: never an empty list\<close>
  "splitOn c [] = [[]]"
| "splitOn c (x # xs) =
     (if x = c then [] # splitOn c xs
      else case splitOn c xs of p # ps \<Rightarrow> (x # p) # ps | [] \<Rightarrow> [[x]])"

definition trailingZeros :: regex where
  \<comment> \<open>\<open>/\.?0+$/\<close>\<close>
  "trailingZeros = Cat (Opt (Lit CHR ''.'')) (Cat (Plus (Lit CHR ''0'')) Eol)"

datatype wei = WeiString string | WeiBigInt int

definition formatWeiToCHZ :: "wei \<Rightarrow> error + string" where
  "formatWeiToCHZ w =
     (case (case w of WeiString s \<Rightarrow> stringToBigInt s | WeiBigInt b \<Rightarrow> Inr b) of
        Inl e \<Rightarrow> Inl e
      | Inr weiValue \<Rightarrow>
          (let divisor = 10 ^ 18;
               wholePart = bigintDiv weiValue divisor;
               fractionalPart = bigintRem weiValue divisor;
               fractionalStr = padStart (bigintToString 10 fractionalPart) 18 CHR ''0'';
               r = replaceFirstEmpty trailingZeros
                     (bigintToString 10 wholePart @ ''.'' @ fractionalStr)
           in Inr (if r = [] then ''0'' else r)))"

definition formatCHZToWei :: "string \<Rightarrow> error + string" where
  "formatCHZToWei chz =
     (let parts = splitOn CHR ''.'' chz;
          whole = (case parts of [] \<Rightarrow> [] | w # _ \<Rightarrow> w);
          decimal = (case parts of w # d # _ \<Rightarrow> d | _ \<Rightarrow> []);
          paddedDecimal = take 18 (padEnd decimal 18 CHR ''0'');
          weiString = whole @ paddedDecimal
      in case stringToBigInt weiString of
           Inl e \<Rightarrow> Inl e
         | Inr b \<Rightarrow> Inr (bigintToString 10 b))"

text \<open>
  The words the round-trip statement speaks about: decimal digits, a whole part without
  its leading zeros (\<open>0\<close> when nothing else is left), a fraction without its trailing
  zeros, and the decimal string made of the two, with the point only before a
  fraction that is not empty.
\<close>

definition isDecDigit :: "char \<Rightarrow> bool" where
  "isDecDigit c = (c \<in> set ''0123456789'')"

definition stripLeadingZeros :: "string \<Rightarrow> string" where
  "stripLeadingZeros w =
     (case dropWhile (\<lambda>c. c = CHR ''0'') w of [] \<Rightarrow> ''0'' | d # ds \<Rightarrow> d # ds)"

definition trimTrailingZeros :: "string \<Rightarrow> string" where
  "trimTrailingZeros f = rev (dropWhile (\<lambda>c. c = CHR ''0'') (rev f))"

definition canonicalDecimal :: "string \<Rightarrow> string \<Rightarrow> string" where
  "canonicalDecimal w f =
     stripLeadingZeros w
       @ (if trimTrailingZeros f = [] then [] else CHR ''.'' # trimTrailingZeros f)"

section \<open>Execute operations and their requests\<close>

text \<open>
  An execute operation awaits HTTP requests one after the other. The model runs an
  operation against a host that answers each request, and returns what the operation
  returns or throws together with the requests it has issued, in order. Reading node
  parameters and credentials issues no request.
\<close>

datatype rpcparam =
    PString string
  | PCall string calldata     \<comment> \<open>the object \<open>{ to, data }\<close> of an \<open>eth_call\<close>\<close>

datatype request =
    JsonRpc string "rpcparam list"                        \<comment> \<open>method, params\<close>
  | ChilizScan string string "(string \<times> string) list"     \<comment> \<open>module, action, params\<close>

record holder =
  TokenHolderAddress :: string
  TokenHolderQuantity :: string

record host =
  jsonRpc :: "string \<Rightarrow> rpcparam list \<Rightarrow> error + string"
    \<comment> \<open>the \<open>result\<close> of a JSON-RPC request, or what \<open>jsonRpcRequest\<close> throws\<close>
  chilizScan :: "string \<Rightarrow> string \<Rightarrow> (string \<times> string) list \<Rightarrow> error + holder list option"
    \<comment> \<open>the \<open>result\<close> of an explorer request: an array (\<open>Some\<close>) or anything else\<close>
  credentialsNetwork :: string
    \<comment> \<open>\<open>credentials.network\<close>\<close>

type_synonym 'a effect = "(error + 'a) \<times> request list"




definition chilizScanRequest ::
    "host \<Rightarrow> string \<Rightarrow> string \<Rightarrow> (string \<times> string) list \<Rightarrow> (holder list option) effect" where
  "chilizScanRequest h modul action params =
     (chilizScan h modul action params, [ChilizScan modul action params])"

subsection \<open>actions/fanTokens\<close>


datatype 'item holders = Holders "'item list" | NotAvailable string

definition getTokenHolders ::
    "host \<Rightarrow> (holder list \<Rightarrow> error + 'item list) \<Rightarrow> string \<Rightarrow> nat \<Rightarrow> ('item holders) effect" where
  \<comment> \<open>\<open>present\<close> formats the holders inside the \<open>try\<close>; \<open>limit\<close> is a count, sent as
      its decimal digits; whatever is thrown is caught\<close>
  "getTokenHolders h present tokenAddress limit =
     (case chilizScanRequest h ''token'' ''tokenholderlist''
             [(''contractaddress'', tokenAddress), (''page'', ''1''),
              (''offset'', natToRadix 10 limit)] of
        (Inl e, t) \<Rightarrow> (Inr (NotAvailable tokenAddress), t)
      | (Inr holders, t) \<Rightarrow>
          (case present (case holders of Some hs \<Rightarrow> hs | None \<Rightarrow> []) of
             Inl e \<Rightarrow> (Inr (NotAvailable tokenAddress), t)
           | Inr items \<Rightarrow> (Inr (Holders items), t)))"

subsection \<open>actions/accounts\<close>

record balanceItem =
  address :: string
  balance :: string
  balanceFormatted :: string
  symbol :: string
  network :: string


subsection \<open>actions/utility\<close>









section \<open>The polling trigger\<close>

text \<open>
  A poll function reads its cursor from the node's static data, awaits one or two
  requests, may store a new cursor, and returns the items to emit or \<open>null\<close> (\<open>None\<close>).
  Whatever is thrown inside is caught, logged and answered with \<open>null\<close>; the log is not
  modelled, and neither is the \<open>timestamp\<close> field of an item, which is the clock's.
\<close>

subsection \<open>Comparisons\<close>









subsection \<open>Static data\<close>


datatype 'a response =
    Rejected string       \<comment> \<open>the request throws\<close>
  | NotAnArray            \<comment> \<open>a body that is not an array\<close>
  | Array "'a list"

subsection \<open>pollNewPolls\<close>

record 'r poll =
  poll_id :: "string option"            \<comment> \<open>\<open>poll.id\<close>\<close>
  poll_tokenSymbol :: "string option"   \<comment> \<open>\<open>poll.tokenSymbol\<close>\<close>
  poll_rest :: 'r
    \<comment> \<open>\<open>title\<close>, \<open>description\<close>, \<open>startDate\<close>, \<open>endDate\<close>, \<open>options\<close>, passed on as they are\<close>






subsection \<open>pollNewRewards\<close>







subsection \<open>pollNewBlocks\<close>





subsection \<open>pollTokenTransfers\<close>








definition twoPolls :: "string \<Rightarrow> unit poll response" where
  "twoPolls endpoint =
     Array [\<lparr>poll_id = Some ''1'', poll_tokenSymbol = None, poll_rest = ()\<rparr>,
            \<lparr>poll_id = Some ''2'', poll_tokenSymbol = Some ''BAR'', poll_rest = ()\<rparr>]"




section \<open>Properties of the matcher\<close>

lemma char_in_0_9:
  fixes c :: char
  shows "((48::nat) \<le> of_char c \<and> (of_char c::nat) \<le> 57) = (c \<in> set ''0123456789'')"
proof
  assume "(48::nat) \<le> of_char c \<and> (of_char c::nat) \<le> 57"
  then have "(of_char c :: nat) \<in> of_char ` set ''0123456789''" by simp arith
  then show "c \<in> set ''0123456789''"
    by (auto simp del: of_char_Char simp add: of_char_eq_iff)
next
  assume "c \<in> set ''0123456789''"
  then show "(48::nat) \<le> of_char c \<and> (of_char c::nat) \<le> 57" by auto
qed

lemma char_in_a_f:
  fixes c :: char
  shows "((97::nat) \<le> of_char c \<and> (of_char c::nat) \<le> 102) = (c \<in> set ''abcdef'')"
proof
  assume "(97::nat) \<le> of_char c \<and> (of_char c::nat) \<le> 102"
  then have "(of_char c :: nat) \<in> of_char ` set ''abcdef''" by simp arith
  then show "c \<in> set ''abcdef''"
    by (auto simp del: of_char_Char simp add: of_char_eq_iff)
next
  assume "c \<in> set ''abcdef''"
  then show "(97::nat) \<le> of_char c \<and> (of_char c::nat) \<le> 102" by auto
qed

lemma char_in_A_F:
  fixes c :: char
  shows "((65::nat) \<le> of_char c \<and> (of_char c::nat) \<le> 70) = (c \<in> set ''ABCDEF'')"
proof
  assume "(65::nat) \<le> of_char c \<and> (of_char c::nat) \<le> 70"
  then have "(of_char c :: nat) \<in> of_char ` set ''ABCDEF''" by simp arith
  then show "c \<in> set ''ABCDEF''"
    by (auto simp del: of_char_Char simp add: of_char_eq_iff)
next
  assume "c \<in> set ''ABCDEF''"
  then show "(65::nat) \<le> of_char c \<and> (of_char c::nat) \<le> 70" by auto
qed

lemma inRanges_hex: "inRanges [(CHR ''a'', CHR ''f''), (CHR ''A'', CHR ''F''), (CHR ''0'', CHR ''9'')] c
    = isHexDigit c"
proof -
  have "inRanges [(CHR ''a'', CHR ''f''), (CHR ''A'', CHR ''F''), (CHR ''0'', CHR ''9'')] c
      = (((97::nat) \<le> of_char c \<and> (of_char c::nat) \<le> 102)
         \<or> ((65::nat) \<le> of_char c \<and> (of_char c::nat) \<le> 70)
         \<or> ((48::nat) \<le> of_char c \<and> (of_char c::nat) \<le> 57))"
    by (simp add: inRanges_def)
  also have "\<dots> = (c \<in> set ''abcdef'' \<or> c \<in> set ''ABCDEF'' \<or> c \<in> set ''0123456789'')"
    by (simp only: char_in_0_9 char_in_a_f char_in_A_F)
  also have "\<dots> = isHexDigit c"
    by (auto simp: isHexDigit_def)
  finally show ?thesis .
qed

lemma rmatch_Times_Cls:
  "rmatch (Times n (Cls rs)) s =
     (if n \<le> length s \<and> (\<forall>c \<in> set (take n s). inRanges rs c) then [drop n s] else [])"
proof (induction n arbitrary: s)
  case 0
  show ?case by simp
next
  case (Suc n)
  show ?case
  proof (cases s)
    case Nil
    then show ?thesis by simp
  next
    case (Cons x xs)
    then show ?thesis using Suc.IH [of xs] by (cases "inRanges rs x") simp_all
  qed
qed

lemma regexTest_addressPattern:
  "regexTest addressPattern s =
     (length s = 42 \<and> take 2 s = ''0x'' \<and> (\<forall>c \<in> set (drop 2 s). isHexDigit c))"
proof (cases s)
  case Nil
  then show ?thesis by (simp add: addressPattern_def)
next
  case s1: (Cons a t)
  show ?thesis
  proof (cases t)
    case Nil
    with s1 show ?thesis by (simp add: addressPattern_def)
  next
    case s2: (Cons b u)
    have body: "rmatch (Cat (Times 40 hexClass) Eol) u
        = (if length u = 40 \<and> (\<forall>c \<in> set u. isHexDigit c) then [[]] else [])"
      by (auto simp: hexClass_def rmatch_Times_Cls inRanges_hex dest: in_set_takeD)
    show ?thesis using s1 s2 body
      by (auto simp: addressPattern_def)
  qed
qed

section \<open>Rounding to a double\<close>

declare bitLength.simps [simp del]
declare natToRadix.simps [simp del]

lemma bitLength_bounds:
  "0 < n \<Longrightarrow> 2 ^ (bitLength n - 1) \<le> n \<and> n < 2 ^ bitLength n"
proof (induction n rule: bitLength.induct)
  case (1 n)
  show ?case
  proof (cases "n div 2 = 0")
    case True
    with "1.prems" have "n = 1" by auto
    have "bitLength (Suc 0) = Suc 0"
      by (simp add: bitLength.simps [of "Suc 0"] bitLength.simps [of 0])
    with \<open>n = 1\<close> show ?thesis by simp
  next
    case False
    then have pos: "0 < n div 2" by simp
    from "1.IH" "1.prems" pos
    have ih: "2 ^ (bitLength (n div 2) - 1) \<le> n div 2 \<and> n div 2 < 2 ^ bitLength (n div 2)"
      by simp
    have bl: "bitLength n = Suc (bitLength (n div 2))"
      using "1.prems" by (subst bitLength.simps) simp
    have bpos: "0 < bitLength (n div 2)"
      using pos by (subst bitLength.simps) simp
    then obtain k where k: "bitLength (n div 2) = Suc k" by (cases "bitLength (n div 2)") auto
    from ih k have "2 ^ k \<le> n div 2" "n div 2 < 2 ^ Suc k" by simp_all
    then have "2 * 2 ^ k \<le> n" "n < 2 * 2 ^ Suc k" by linarith+
    then show ?thesis by (simp add: bl k)
  qed
qed

lemma roundHalfEven_of_int [simp]: "roundHalfEven (of_int k) = k"
  by (simp add: roundHalfEven_def)

lemma toDouble_of_int:
  assumes "\<bar>n\<bar> \<le> 2 ^ 53"
  shows "toDouble (of_int n) = Num (of_int n)"
proof (cases "n = 0")
  case True
  then show ?thesis by (simp add: toDouble_def)
next
  case False
  define a where "a = nat \<bar>n\<bar>"
  have apos: "0 < a" and a_le: "a \<le> 2 ^ 53" using False assms by (auto simp: a_def)
  have abs_eq: "\<bar>of_int n :: rat\<bar> = of_nat a" by (simp add: a_def)
  have one_le: "(1::rat) \<le> of_nat a" using apos by simp
  define e where "e = bitLength a - 1"
  from bitLength_bounds [OF apos] have lo: "2 ^ e \<le> a" and hi: "a < 2 ^ bitLength a"
    by (simp_all add: e_def)
  have blpos: "0 < bitLength a" using apos by (subst bitLength.simps) simp
  have fl: "floorLog2 (of_nat a) = int e"
    using one_le blpos by (simp add: floorLog2_def e_def)
  have e_le: "e \<le> 53"
  proof (rule ccontr)
    assume "\<not> e \<le> 53"
    then have "54 \<le> e" by simp
    then have "(2::nat) ^ 54 \<le> 2 ^ e" by (rule power_increasing) simp
    with lo a_le show False by simp
  qed
  have r: "of_int (roundHalfEven (of_nat a / pow2 (int e - 52))) * pow2 (int e - 52) = (of_nat a :: rat)"
  proof (cases "e \<le> 52")
    case True
    then have p: "pow2 (int e - 52) = 1 / 2 ^ (52 - e)"
      by (cases "e = 52") (simp_all add: pow2_def nat_diff_distrib')
    have "(of_nat a :: rat) / pow2 (int e - 52) = of_int (int (a * 2 ^ (52 - e)))"
      by (simp add: p)
    then have "roundHalfEven (of_nat a / pow2 (int e - 52)) = int (a * 2 ^ (52 - e))"
      by (simp only: roundHalfEven_of_int)
    then show ?thesis by (simp add: p)
  next
    case False
    with e_le have e53: "e = 53" by simp
    with lo a_le have a53: "a = 2 ^ 53" by simp
    have p: "pow2 (int e - 52) = 2" by (simp add: e53 pow2_def)
    have "(of_nat a :: rat) / pow2 (int e - 52) = of_int (2 ^ 52)"
      by (simp add: p a53)
    then have "roundHalfEven (of_nat a / pow2 (int e - 52)) = 2 ^ 52"
      by (simp only: roundHalfEven_of_int)
    then show ?thesis by (simp add: p a53)
  qed
  have small: "\<not> (2 ^ 1024 \<le> (of_nat a :: rat))"
  proof -
    have "(of_nat a :: rat) \<le> 2 ^ 53" using a_le by (metis of_nat_le_iff of_nat_numeral of_nat_power)
    moreover have "(2::rat) ^ 53 < 2 ^ 1024" by (rule power_strict_increasing) simp_all
    ultimately show ?thesis by simp
  qed
  have "toDouble (of_int n) = Num (if (of_int n :: rat) < 0 then - of_nat a else of_nat a)"
    using False small by (simp add: toDouble_def abs_eq fl r Let_def max_def)
  also have "(if (of_int n :: rat) < 0 then - of_nat a else of_nat a) = (of_int n :: rat)"
    by (simp add: a_def)
  finally show ?thesis .
qed


lemma bigintDiv_exact:
  assumes "b \<noteq> 0" "b dvd a"
  shows "bigintDiv a b = a div b"
proof -
  from assms obtain k where k: "a = b * k" by (auto elim: dvdE)
  have "\<bar>a\<bar> div \<bar>b\<bar> = \<bar>k\<bar>" using assms(1) by (simp add: k abs_mult)
  then have "bigintDiv a b = sgn (b * k) * sgn b * \<bar>k\<bar>" by (simp add: bigintDiv_def k)
  also have "\<dots> = (sgn b * sgn b) * (sgn k * \<bar>k\<bar>)" by (simp add: sgn_mult)
  also have "\<dots> = k" using assms(1) by (simp add: sgn_mult_abs flip: sgn_mult)
  finally show ?thesis using assms(1) by (simp add: k)
qed

lemma bitLength_unique:
  assumes "2 ^ k \<le> n" "n < 2 ^ Suc k"
  shows "bitLength n = Suc k"
proof -
  have pos: "0 < n" using assms(1) by (metis gr0I not_le zero_less_numeral zero_less_power)
  from bitLength_bounds [OF pos]
  have lo: "2 ^ (bitLength n - 1) \<le> n" and hi: "n < 2 ^ bitLength n" by simp_all
  have "(2::nat) ^ k < 2 ^ bitLength n" using assms(1) hi by (rule le_less_trans)
  then have a: "k < bitLength n" by simp
  have "(2::nat) ^ (bitLength n - 1) < 2 ^ Suc k" using lo assms(2) by (rule le_less_trans)
  then have b: "bitLength n - 1 < Suc k" by (simp del: power_Suc)
  from a b show ?thesis by simp
qed

lemma floor_rat_numeral [simp]:
  "\<lfloor>numeral a / numeral b :: rat\<rfloor> = numeral a div numeral b"
  using floor_divide_of_int_eq [of "numeral a" "numeral b", where ?'a = rat] by simp

lemma floorLog2_ge1:
  assumes "1 \<le> x" "2 ^ k \<le> nat \<lfloor>x\<rfloor>" "nat \<lfloor>x\<rfloor> < 2 ^ Suc k"
  shows "floorLog2 x = int k"
  using assms(1) bitLength_unique [OF assms(2,3)] by (simp add: floorLog2_def)

lemma toDouble_eval:
  assumes "0 < x" "floorLog2 x = e" "- 1022 \<le> e" "pow2 (e - 52) = q"
    "roundHalfEven (x / q) = m" "of_int m * q < 2 ^ 1024"
  shows "toDouble x = Num (of_int m * q)"
proof -
  have "\<bar>x\<bar> = x" "x \<noteq> 0" "\<not> x < 0" using assms(1) by simp_all
  moreover have "max e (- 1022) = e" using assms(3) by simp
  ultimately show ?thesis
    using assms(2,4,5,6) by (simp add: toDouble_def Let_def)
qed

lemma n1: "bigintToNumber 40000000000000100 = Num 40000000000000096"
proof -
  have fl: "floorLog2 (40000000000000100 :: rat) = 55"
    using floorLog2_ge1 [of "40000000000000100" 55] by simp
  have q: "pow2 (55 - 52) = 8" by (simp add: pow2_def)
  have m: "roundHalfEven (40000000000000100 / 8) = 5000000000000012"
    by (simp add: roundHalfEven_def Let_def)
  have "toDouble 40000000000000100 = Num (of_int 5000000000000012 * 8)"
    by (rule toDouble_eval [OF _ fl _ q m]) simp_all
  then show ?thesis by (simp add: bigintToNumber_def)
qed

lemma n2: "toDouble (40000000000000096 / 100) = Num (6400000000000015 / 16)"
proof -
  have fl: "floorLog2 (40000000000000096 / 100 :: rat) = 48"
    using floorLog2_ge1 [of "40000000000000096 / 100" 48] by simp
  have q: "pow2 (48 - 52) = 1 / 16" by (simp add: pow2_def)
  have m: "roundHalfEven (40000000000000096 / 100 / (1 / 16)) = 6400000000000015"
    by (simp add: roundHalfEven_def Let_def)
  have "toDouble (40000000000000096 / 100) = Num (of_int 6400000000000015 * (1 / 16))"
    by (rule toDouble_eval [OF _ fl _ q m]) simp_all
  then show ?thesis by simp
qed

lemma cp_value: "calculatePercentage 40000000000000100 10000 = Num (6400000000000015 / 16)"
proof -
  have "bigintDiv (40000000000000100 * 10000) 10000 = 40000000000000100"
    by (simp add: bigintDiv_def)
  then have "calculatePercentage 40000000000000100 10000
      = jsDivide (bigintToNumber 40000000000000100) 100"
    by (simp only: calculatePercentage_def) simp
  also have "\<dots> = toDouble (40000000000000096 / 100)"
    by (simp only: n1 jsDivide_def jsnumber.case)
  finally show ?thesis by (simp only: n2)
qed

section \<open>Addresses\<close>


lemma toLowerChar_hex: "isHexDigit c \<Longrightarrow> isLowerHexDigit (toLowerChar c)"
  by (auto simp: isHexDigit_def isLowerHexDigit_def toLowerChar_def char_of_def bit_0)

lemma toLowerChar_lower: "isLowerHexDigit c \<Longrightarrow> toLowerChar c = c"
  by (auto simp: isLowerHexDigit_def toLowerChar_def)

lemma lower_is_hex: "isLowerHexDigit c \<Longrightarrow> isHexDigit c"
  by (auto simp: isLowerHexDigit_def isHexDigit_def)

lemma toLowerChar_0x [simp]: "toLowerChar CHR ''0'' = CHR ''0''" "toLowerChar CHR ''x'' = CHR ''x''"
  by (simp_all add: toLowerChar_def)

text \<open>
  Claim C7. \<open>isValidAddress\<close>, in utils/helpers and again in transport/client, returns
  true exactly for the strings of 42 characters that are \<open>0x\<close> followed by 40
  hexadecimal digits, and false for every other string.
\<close>

theorem isValidAddress_exact:
  "(isValidAddress s \<longleftrightarrow>
      length s = 42 \<and> take 2 s = ''0x'' \<and> (\<forall>c \<in> set (drop 2 s). isHexDigit c))
   \<and> (isValidAddress_client s \<longleftrightarrow>
      length s = 42 \<and> take 2 s = ''0x'' \<and> (\<forall>c \<in> set (drop 2 s). isHexDigit c))"
  by (simp only: isValidAddress_def isValidAddress_client_def regexTest_addressPattern)

theorem isValidAddress_exact_witness:
  "isValidAddress ''0x742d35Cc6634C0532925a3b844Bc454e4438f44e''
   \<and> \<not> isValidAddress ''0x742d35Cc6634C0532925a3b844Bc454e4438f44''
   \<and> \<not> isValidAddress_client ''742d35Cc6634C0532925a3b844Bc454e4438f44e''
   \<and> \<not> isValidAddress_client ''0xGGGGGGGGGGGGGGGGGGGGGGGGGGGGGGGGGGGGGGGG''"
  using isValidAddress_exact [of "''0x742d35Cc6634C0532925a3b844Bc454e4438f44e''"]
    isValidAddress_exact [of "''0x742d35Cc6634C0532925a3b844Bc454e4438f44''"]
    isValidAddress_exact [of "''742d35Cc6634C0532925a3b844Bc454e4438f44e''"]
    isValidAddress_exact [of "''0xGGGGGGGGGGGGGGGGGGGGGGGGGGGGGGGGGGGGGGGG''"]
  by (simp_all add: isHexDigit_def)

text \<open>
  Claim C6. \<open>normalizeAddress\<close> is idempotent: where it returns a result \<open>r\<close>
  without throwing, normalising \<open>r\<close> again returns \<open>r\<close>; and \<open>r\<close> is \<open>0x\<close>
  followed by (40) lower-case hexadecimal digits.
\<close>

theorem normalizeAddress_idempotent:
  assumes "normalizeAddress a = Inr r"
  shows "normalizeAddress r = Inr r \<and> length r = 42 \<and> take 2 r = ''0x''
         \<and> (\<forall>c \<in> set (drop 2 r). isLowerHexDigit c)"
proof -
  define n where "n = (if \<not> startsWith a ''0x'' then ''0x'' @ a else a)"
  from assms have ok: "regexTest addressPattern n" and r: "r = toLowerCase n"
    by (auto simp: normalizeAddress_def n_def Let_def split: if_splits)
  from ok have len: "length n = 42" and pre: "take 2 n = ''0x''"
    and hex: "\<forall>c \<in> set (drop 2 n). isHexDigit c"
    by (simp_all add: regexTest_addressPattern)
  have len_r: "length r = 42" using len r by (simp add: toLowerCase_def)
  have pre_r: "take 2 r = ''0x''"
    using pre r by (simp add: toLowerCase_def take_map)
  have low_r: "\<forall>c \<in> set (drop 2 r). isLowerHexDigit c"
    using hex r by (auto simp: toLowerCase_def drop_map toLowerChar_hex)
  have split_r: "r = take 2 r @ drop 2 r" by simp
  have fix_r: "toLowerCase r = r"
  proof -
    have "toLowerCase (take 2 r @ drop 2 r) = take 2 r @ drop 2 r"
      using low_r pre_r by (simp add: toLowerCase_def toLowerChar_lower map_idI)
    then show ?thesis by simp
  qed
  have "regexTest addressPattern r"
    using len_r pre_r low_r by (simp add: regexTest_addressPattern lower_is_hex)
  moreover have "startsWith r ''0x''" using pre_r by (simp add: startsWith_def numeral_2_eq_2)
  ultimately have "normalizeAddress r = Inr r"
    using fix_r by (simp add: normalizeAddress_def)
  with len_r pre_r low_r show ?thesis by simp
qed

theorem normalizeAddress_idempotent_witness:
  "normalizeAddress ''742D35CC6634C0532925A3B844BC454E4438F44E'' = Inr ''0x742d35cc6634c0532925a3b844bc454e4438f44e''
   \<and> normalizeAddress ''0x742d35cc6634c0532925a3b844bc454e4438f44e'' = Inr ''0x742d35cc6634c0532925a3b844bc454e4438f44e''"
proof -
  have h: "normalizeAddress ''742D35CC6634C0532925A3B844BC454E4438F44E'' = Inr ''0x742d35cc6634c0532925a3b844bc454e4438f44e''"
    by (simp add: normalizeAddress_def startsWith_def regexTest_addressPattern isHexDigit_def
        toLowerCase_def toLowerChar_def char_of_def bit_0)
  from normalizeAddress_idempotent [OF h] h show ?thesis by simp
qed

section \<open>Reading and printing digits\<close>

lemma isRadixDigit_16: "isRadixDigit 16 c = isHexDigit c"
proof -
  have "isRadixDigit 16 c
      = (((48::nat) \<le> of_char c \<and> (of_char c::nat) \<le> 57)
         \<or> ((97::nat) \<le> of_char c \<and> (of_char c::nat) \<le> 102)
         \<or> ((65::nat) \<le> of_char c \<and> (of_char c::nat) \<le> 70))"
    by (auto simp: isRadixDigit_def digitVal_def Let_def)
  also have "\<dots> = (c \<in> set ''0123456789'' \<or> c \<in> set ''abcdef'' \<or> c \<in> set ''ABCDEF'')"
    by (simp only: char_in_0_9 char_in_a_f char_in_A_F)
  also have "\<dots> = isHexDigit c"
    by (auto simp: isHexDigit_def)
  finally show ?thesis .
qed

lemma isRadixDigit_10: "isRadixDigit 10 c = (c \<in> set ''0123456789'')"
proof -
  have "isRadixDigit 10 c = ((48::nat) \<le> of_char c \<and> (of_char c::nat) \<le> 57)"
    by (auto simp: isRadixDigit_def digitVal_def Let_def)
  then show ?thesis by (simp only: char_in_0_9)
qed

lemma hexDigit_plain:
  assumes "isHexDigit c"
  shows "\<not> isWhiteSpace c" "c \<noteq> CHR ''-''" "c \<noteq> CHR ''+''" "c \<noteq> CHR ''x''" "c \<noteq> CHR ''X''"
  using assms by (auto simp: isHexDigit_def isWhiteSpace_def)

lemma takeWhile_all: "\<forall>c \<in> set ds. P c \<Longrightarrow> takeWhile P ds = ds"
  by (induction ds) auto

lemma parseInt16_prefixed:
  assumes "ds \<noteq> []" "\<forall>c \<in> set ds. isHexDigit c"
  shows "parseInt16 (''0x'' @ ds) = toDouble (of_nat (radixVal 16 ds))"
proof -
  have tw: "takeWhile (isRadixDigit 16) ds = ds"
    using assms(2) by (intro takeWhile_all) (simp add: isRadixDigit_16)
  have ws: "\<not> isWhiteSpace CHR ''0''" by (simp add: isWhiteSpace_def)
  show ?thesis
    using assms(1) by (simp add: parseInt16_def ws tw Let_def)
qed

lemma parseInt16_plain:
  assumes "ds \<noteq> []" "\<forall>c \<in> set ds. isHexDigit c"
  shows "parseInt16 ds = toDouble (of_nat (radixVal 16 ds))"
proof -
  from assms(1) obtain c cs where ds: "ds = c # cs" by (cases ds) auto
  have c: "isHexDigit c" using assms(2) ds by simp
  have tw: "takeWhile (isRadixDigit 16) ds = ds"
    using assms(2) by (intro takeWhile_all) (simp add: isRadixDigit_16)
  have dw: "dropWhile isWhiteSpace ds = ds"
    using hexDigit_plain(1) [OF c] by (simp add: ds)
  have sign: "take 1 ds \<noteq> ''-''" "take 1 ds \<noteq> ''+''"
    using hexDigit_plain(2,3) [OF c] by (simp_all add: ds)
  have pre: "take 2 ds \<noteq> ''0x''" "take 2 ds \<noteq> ''0X''"
  proof -
    show "take 2 ds \<noteq> ''0x''"
    proof (cases cs)
      case Nil then show ?thesis by (simp add: ds)
    next
      case (Cons d es)
      then have "isHexDigit d" using assms(2) ds by simp
      from hexDigit_plain(4) [OF this] show ?thesis by (simp add: ds Cons numeral_2_eq_2)
    qed
    show "take 2 ds \<noteq> ''0X''"
    proof (cases cs)
      case Nil then show ?thesis by (simp add: ds)
    next
      case (Cons d es)
      then have "isHexDigit d" using assms(2) ds by simp
      from hexDigit_plain(5) [OF this] show ?thesis by (simp add: ds Cons numeral_2_eq_2)
    qed
  qed
  show ?thesis
    using assms(1) sign pre by (simp add: parseInt16_def Let_def dw tw)
qed

lemma trim_plain:
  assumes "s \<noteq> []" "\<not> isWhiteSpace (hd s)" "\<not> isWhiteSpace (last s)"
  shows "trim s = s"
proof -
  have a: "dropWhile isWhiteSpace s = s" using assms(1,2) by (cases s) auto
  have "rev s \<noteq> []" "\<not> isWhiteSpace (hd (rev s))" using assms(1,3) by (simp_all add: hd_rev)
  then have b: "dropWhile isWhiteSpace (rev s) = rev s" by (cases "rev s") auto
  show ?thesis by (simp add: trim_def a b)
qed


lemma digitVal_digitChar: "v < 16 \<Longrightarrow> digitVal (digitChar v) = Some v"
  by (auto simp: digitVal_def digitChar_def Let_def)

lemma char_of_48: "char_of (48::nat) = CHR ''0''"
  by (simp add: char_of_def bit_0)

lemma digitChar_zero: "v < 16 \<Longrightarrow> (digitChar v = CHR ''0'') = (v = 0)"
proof
  assume "v < 16" "digitChar v = CHR ''0''"
  then have "digitVal (CHR ''0'') = Some v" using digitVal_digitChar [of v] by simp
  then show "v = 0" by (simp add: digitVal_def)
next
  assume "v = 0" then show "digitChar v = CHR ''0''" by (simp add: digitChar_def char_of_48)
qed

lemma digitChar_lower: "v < 16 \<Longrightarrow> isLowerHexDigit (digitChar v)"
proof -
  assume "v < 16"
  then have "isHexDigit (digitChar v)"
    using digitVal_digitChar [of v] by (simp add: isRadixDigit_16 [symmetric] isRadixDigit_def)
  moreover have "\<not> ((65::nat) \<le> of_char (digitChar v) \<and> (of_char (digitChar v)::nat) \<le> 70)"
    using \<open>v < 16\<close> by (auto simp: digitChar_def)
  ultimately show ?thesis
    unfolding char_in_A_F by (auto simp: isHexDigit_def isLowerHexDigit_def)
qed

lemma radixVal_snoc:
  "radixVal r (xs @ [c]) = radixVal r xs * r + (case digitVal c of Some v \<Rightarrow> v | None \<Rightarrow> 0)"
  by (simp add: radixVal_def)

lemma radixVal_natToRadix: "2 \<le> r \<Longrightarrow> r \<le> 16 \<Longrightarrow> radixVal r (natToRadix r n) = n"
proof (induction r n rule: natToRadix.induct)
  case (1 r n)
  show ?case
  proof (cases "n < r")
    case True
    then have "natToRadix r n = [digitChar n]" by (simp add: natToRadix.simps)
    moreover have "n < 16" using True "1.prems" by simp
    ultimately show ?thesis by (simp add: radixVal_def digitVal_digitChar)
  next
    case False
    then have u: "natToRadix r n = natToRadix r (n div r) @ [digitChar (n mod r)]"
      using "1.prems" by (subst natToRadix.simps) simp
    have ih: "radixVal r (natToRadix r (n div r)) = n div r"
      using "1.IH" False "1.prems" by simp
    have "n mod r < 16" using "1.prems" by (meson le_trans less_le_trans mod_less_divisor not_le zero_less_numeral pos2)
    then show ?thesis by (simp add: u radixVal_snoc ih digitVal_digitChar)
  qed
qed

lemma natToRadix_nonempty: "natToRadix r n \<noteq> []"
  by (subst natToRadix.simps) simp

lemma natToRadix_hd: "2 \<le> r \<Longrightarrow> r \<le> 16 \<Longrightarrow> 0 < n \<Longrightarrow> hd (natToRadix r n) \<noteq> CHR ''0''"
proof (induction r n rule: natToRadix.induct)
  case (1 r n)
  show ?case
  proof (cases "n < r")
    case True
    then have "natToRadix r n = [digitChar n]" by (simp add: natToRadix.simps)
    moreover have "n < 16" using True "1.prems" by simp
    ultimately show ?thesis using "1.prems" by (simp add: digitChar_zero)
  next
    case False
    then have u: "natToRadix r n = natToRadix r (n div r) @ [digitChar (n mod r)]"
      using "1.prems" by (subst natToRadix.simps) simp
    have "0 < n div r" using False "1.prems" by (simp add: div_greater_zero_iff)
    then have "hd (natToRadix r (n div r)) \<noteq> CHR ''0''"
      using "1.IH" False "1.prems" by simp
    then show ?thesis by (simp add: u natToRadix_nonempty)
  qed
qed

lemma natToRadix_zero: "natToRadix r 0 = ''0''"
  by (subst natToRadix.simps) (auto simp add: digitChar_def char_of_48)

lemma natToRadix_lower: "2 \<le> r \<Longrightarrow> r \<le> 16 \<Longrightarrow> \<forall>c \<in> set (natToRadix r n). isLowerHexDigit c"
proof (induction r n rule: natToRadix.induct)
  case (1 r n)
  show ?case
  proof (cases "n < r")
    case True
    then have "natToRadix r n = [digitChar n]" by (simp add: natToRadix.simps)
    moreover have "n < 16" using True "1.prems" by simp
    ultimately show ?thesis by (simp add: digitChar_lower)
  next
    case False
    then have u: "natToRadix r n = natToRadix r (n div r) @ [digitChar (n mod r)]"
      using "1.prems" by (subst natToRadix.simps) simp
    have m: "n mod r < 16" using "1.prems" by (meson le_trans less_le_trans mod_less_divisor not_le zero_less_numeral pos2)
    have "\<forall>c \<in> set (natToRadix r (n div r)). isLowerHexDigit c"
      using "1.IH" False "1.prems" by simp
    then show ?thesis using m by (simp add: u digitChar_lower)
  qed
qed

lemma decDigit_plain:
  assumes "c \<in> set ''0123456789''"
  shows "\<not> isWhiteSpace c" "c \<notin> set ''xXoObB+-''"
  using assms by (auto simp: isWhiteSpace_def)

lemma stringToBigInt_decimal:
  assumes "ds \<noteq> []" "\<forall>c \<in> set ds. c \<in> set ''0123456789''"
  shows "stringToBigInt ds = Inr (int (radixVal 10 ds))"
proof -
  from assms(1) obtain c cs where ds: "ds = c # cs" by (cases ds) auto
  have dig: "\<And>d. d \<in> set ds \<Longrightarrow> \<not> isWhiteSpace d \<and> d \<notin> set ''xXoObB+-''"
    using assms(2) decDigit_plain by blast
  have "\<not> isWhiteSpace (hd ds)" "\<not> isWhiteSpace (last ds)"
    using dig [of "hd ds"] dig [of "last ds"] assms(1) by simp_all
  then have t: "trim ds = ds" using assms(1) by (intro trim_plain)
  have two: "take 2 ds \<noteq> ''0x''" "take 2 ds \<noteq> ''0X''" "take 2 ds \<noteq> ''0o''"
     "take 2 ds \<noteq> ''0O''" "take 2 ds \<noteq> ''0b''" "take 2 ds \<noteq> ''0B''"
  proof -
    have "length (take 2 ds) = 2 \<Longrightarrow> take 2 ds ! 1 \<notin> set ''xXoObB+-''"
    proof -
      assume "length (take 2 ds) = 2"
      then have "1 < length ds" by simp
      then have "ds ! 1 \<in> set ds" by simp
      from dig [OF this] show ?thesis by simp
    qed
    then show "take 2 ds \<noteq> ''0x''" "take 2 ds \<noteq> ''0X''" "take 2 ds \<noteq> ''0o''"
     "take 2 ds \<noteq> ''0O''" "take 2 ds \<noteq> ''0b''" "take 2 ds \<noteq> ''0B''"
      by fastforce+
  qed
  have one: "take 1 ds \<noteq> ''-''" "take 1 ds \<noteq> ''+''"
    using dig [of c] by (auto simp: ds)
  have d: "list_all (isRadixDigit 10) ds"
    using assms(2) by (simp add: list_all_iff isRadixDigit_10)
  have r: "readDigits 10 ds ds = Inr (int (radixVal 10 ds))"
    using assms(1) d by (simp add: readDigits_def)
  show ?thesis
    unfolding stringToBigInt_def t Let_def by (simp only: two one assms(1) if_False r simp_thms)
qed

section \<open>Percentages\<close>

text \<open>
  Claim C5, as the code has it. \<open>calculatePercentage(part, total)\<close> returns 0 when
  \<open>total\<close> is 0. When \<open>total\<close> divides \<open>part * 10000\<close> and the quotient is at most
  \<open>2^53\<close> in absolute value, the result is the double nearest to the exact percentage
  \<open>part * 100 / total\<close>; when the percentage is a whole number the result is that number
  (25 of 100 gives 25, 1 of 4 gives 25).
\<close>

theorem calculatePercentage_exact:
  "calculatePercentage part 0 = Num 0
   \<and> (total' \<noteq> 0 \<and> total' dvd part * 10000 \<and> \<bar>part * 10000 div total'\<bar> \<le> 2 ^ 53
        \<longrightarrow> calculatePercentage part total' = toDouble (of_int part * 100 / of_int total'))
   \<and> (total' \<noteq> 0 \<and> total' dvd part * 100 \<and> \<bar>part * 10000 div total'\<bar> \<le> 2 ^ 53
        \<longrightarrow> calculatePercentage part total' = Num (of_int (part * 100 div total')))"
proof (intro conjI impI)
  show "calculatePercentage part 0 = Num 0" by (simp add: calculatePercentage_def)
next
  assume h: "total' \<noteq> 0 \<and> total' dvd part * 10000 \<and> \<bar>part * 10000 div total'\<bar> \<le> 2 ^ 53"
  define q where "q = part * 10000 div total'"
  have d: "bigintDiv (part * 10000) total' = q" using h by (simp add: bigintDiv_exact q_def)
  have n: "bigintToNumber q = Num (of_int q)"
    using h by (simp add: bigintToNumber_def toDouble_of_int q_def)
  have "(of_int q :: rat) = of_int (part * 10000) / of_int total'"
    using h unfolding q_def by (simp add: of_int_div)
  then have r: "(of_int q :: rat) / 100 = of_int part * 100 / of_int total'" by simp
  show "calculatePercentage part total' = toDouble (of_int part * 100 / of_int total')"
    using h by (simp add: calculatePercentage_def d n jsDivide_def r)
next
  assume h: "total' \<noteq> 0 \<and> total' dvd part * 100 \<and> \<bar>part * 10000 div total'\<bar> \<le> 2 ^ 53"
  define p where "p = part * 100 div total'"
  from h have pk: "part * 100 = total' * p" by (simp add: p_def)
  have "part * 10000 = (part * 100) * 100" by simp
  also have "\<dots> = total' * (p * 100)" by (simp only: pk mult.assoc)
  finally have e: "part * 10000 = total' * (p * 100)" .
  have dv: "total' dvd part * 10000" unfolding e by (rule dvd_triv_left)
  have q: "part * 10000 div total' = p * 100"
  proof -
    from h have "total' \<noteq> 0" by simp
    then have "total' * (p * 100) div total' = p * 100" by (rule nonzero_mult_div_cancel_left)
    then show ?thesis by (simp only: e)
  qed
  have d: "bigintDiv (part * 10000) total' = p * 100" using h dv q by (simp add: bigintDiv_exact)
  have bound: "\<bar>p * 100\<bar> \<le> 2 ^ 53" using h q by simp
  have n: "bigintToNumber (p * 100) = Num (of_int (p * 100))"
    using bound by (simp only: bigintToNumber_def toDouble_of_int)
  have "\<bar>p\<bar> \<le> \<bar>p * 100\<bar>" by (simp add: abs_mult)
  with bound have pb: "\<bar>p\<bar> \<le> 2 ^ 53" by linarith
  have "calculatePercentage part total' = toDouble (of_int (p * 100) / 100)"
    using h by (simp only: calculatePercentage_def d n jsDivide_def jsnumber.case if_False)
  also have "\<dots> = toDouble (of_int p)" by simp
  also have "\<dots> = Num (of_int p)" using pb by (rule toDouble_of_int)
  finally show "calculatePercentage part total' = Num (of_int (part * 100 div total'))"
    by (simp add: p_def)
qed

theorem calculatePercentage_exact_witness:
  "calculatePercentage 0 0 = Num 0 \<and> calculatePercentage 25 100 = Num 25
   \<and> calculatePercentage 1 4 = Num 25 \<and> calculatePercentage 1 8 = toDouble (25 / 2)"
proof -
  have a: "calculatePercentage 0 0 = Num 0"
    by (rule calculatePercentage_exact [of 0 0, THEN conjunct1])
  have b: "calculatePercentage 25 100 = Num (of_int (25 * 100 div 100))"
    by (rule calculatePercentage_exact [of 25 100, THEN conjunct2, THEN conjunct2, THEN mp]) simp
  have c: "calculatePercentage 1 4 = Num (of_int (1 * 100 div 4))"
    by (rule calculatePercentage_exact [of 1 4, THEN conjunct2, THEN conjunct2, THEN mp]) simp
  have d: "calculatePercentage 1 8 = toDouble (of_int 1 * 100 / of_int 8)"
    by (rule calculatePercentage_exact [of 1 8, THEN conjunct2, THEN conjunct1, THEN mp]) simp
  from a b c d show ?thesis by simp
qed

text \<open>
  The bound is needed: the quotient passes through \<open>Number\<close>, which keeps 53 bits. For
  \<open>part = 40000000000000100\<close> and \<open>total = 10000\<close> the exact percentage is
  \<open>400000000000001\<close>, a double, and the function returns \<open>400000000000000.9375\<close>.
\<close>

theorem calculatePercentage_counterexample:
  "\<not> (\<forall>part total'. total' \<noteq> 0 \<and> total' dvd part * 10000
        \<longrightarrow> calculatePercentage part total' = toDouble (of_int part * 100 / of_int total'))"
proof
  assume "\<forall>part total'. total' \<noteq> 0 \<and> total' dvd part * 10000
        \<longrightarrow> calculatePercentage part total' = toDouble (of_int part * 100 / of_int total')"
  then have "calculatePercentage 40000000000000100 10000
      = toDouble (of_int 40000000000000100 * 100 / of_int 10000)"
    by (rule allE [where x = 40000000000000100], elim allE [where x = 10000]) simp
  moreover have "toDouble (of_int 40000000000000100 * 100 / of_int 10000) = Num 400000000000001"
    using toDouble_of_int [of 400000000000001] by simp
  ultimately show False by (simp add: cp_value)
qed

section \<open>Hexadecimal strings\<close>




lemma numberToHex_int:
  "0 \<le> n \<Longrightarrow> numberToHex (OfNumber (Num (of_int n))) = Some (''0x'' @ natToRadix 16 (nat n))"
  by (simp add: numberToHex_def numberToString16_def bigintToString_def)

text \<open>
  Claim C3, as the code has it. For a hexadecimal string \<open>h\<close> (one or more hexadecimal
  digits, with or without the prefix \<open>0x\<close>) whose value is at most \<open>2^53\<close>,
  \<open>numberToHex(hexToNumber(h))\<close> is \<open>0x\<close> followed by the lower-case hexadecimal digits
  of the same value, without leading zeros.
\<close>

theorem hex_number_roundtrip:
  assumes "ds \<noteq> []" "\<forall>c \<in> set ds. isHexDigit c" "radixVal 16 ds \<le> 2 ^ 53"
  shows "numberToHex (OfNumber (hexToNumber (''0x'' @ ds))) = Some (''0x'' @ natToRadix 16 (radixVal 16 ds))
       \<and> numberToHex (OfNumber (hexToNumber ds)) = Some (''0x'' @ natToRadix 16 (radixVal 16 ds))
       \<and> radixVal 16 (natToRadix 16 (radixVal 16 ds)) = radixVal 16 ds
       \<and> (\<forall>c \<in> set (natToRadix 16 (radixVal 16 ds)). isLowerHexDigit c)
       \<and> (natToRadix 16 (radixVal 16 ds) = ''0'' \<or> hd (natToRadix 16 (radixVal 16 ds)) \<noteq> CHR ''0'')"
proof -
  define v where "v = radixVal 16 ds"
  have "\<bar>int v\<bar> \<le> 2 ^ 53" using assms(3) unfolding v_def
    by (metis abs_of_nat of_nat_le_iff of_nat_numeral of_nat_power)
  then have d: "toDouble (of_nat v) = Num (of_int (int v))"
    using toDouble_of_int [of "int v"] by simp
  have "\<not> isHexDigit CHR ''x''" by (simp add: isHexDigit_def)
  with assms(2) have ne: "ds \<noteq> ''0x''" by auto
  have a: "hexToNumber (''0x'' @ ds) = Num (of_int (int v))"
    using assms(1) parseInt16_prefixed [OF assms(1,2)] d by (simp add: hexToNumber_def v_def)
  have b: "hexToNumber ds = Num (of_int (int v))"
    using assms(1) ne parseInt16_plain [OF assms(1,2)] d by (simp add: hexToNumber_def v_def)
  have p: "numberToHex (OfNumber (Num (of_int (int v)))) = Some (''0x'' @ natToRadix 16 v)"
    using numberToHex_int [of "int v"] by simp
  have z: "natToRadix 16 v = ''0'' \<or> hd (natToRadix 16 v) \<noteq> CHR ''0''"
    using natToRadix_zero [of 16] natToRadix_hd [of 16 v] by (cases "v = 0") simp_all
  show ?thesis
    unfolding v_def [symmetric] a b p
    using z radixVal_natToRadix [of 16 v] natToRadix_lower [of 16 v] by simp
qed

theorem hex_number_roundtrip_witness:
  "numberToHex (OfNumber (hexToNumber ''0x00fF'')) = Some ''0xff''
   \<and> numberToHex (OfNumber (hexToNumber ''00fF'')) = Some ''0xff''"
proof -
  have v: "radixVal 16 ''00fF'' = 255" by (simp add: radixVal_def digitVal_def)
  have n: "natToRadix 16 255 = ''ff''"
    by (simp add: natToRadix.simps [of 16 255] natToRadix.simps [of 16 15] digitChar_def
        char_of_def bit_0)
  have "''00fF'' \<noteq> [] \<and> (\<forall>c \<in> set ''00fF''. isHexDigit c) \<and> radixVal 16 ''00fF'' \<le> 2 ^ 53"
    by (simp add: v isHexDigit_def)
  then show ?thesis
    using hex_number_roundtrip [of "''00fF''"] by (simp add: v n)
qed

text \<open>
  Above \<open>2^53\<close> the value is not kept: \<open>hexToNumber\<close> returns a double, and
  \<open>0x20000000000001\<close> (\<open>2^53 + 1\<close>) comes back as \<open>0x20000000000000\<close>.
\<close>

theorem hex_number_roundtrip_counterexample:
  "numberToHex (OfNumber (hexToNumber ''0x20000000000001'')) = Some ''0x20000000000000''
   \<and> radixVal 16 ''20000000000000'' \<noteq> radixVal 16 ''20000000000001''"
proof -
  have v: "radixVal 16 ''20000000000001'' = 9007199254740993"
     "radixVal 16 ''20000000000000'' = 9007199254740992"
    by (simp_all add: radixVal_def digitVal_def)
  have fl: "floorLog2 (9007199254740993 :: rat) = 53"
    using floorLog2_ge1 [of "9007199254740993" 53] by simp
  have q: "pow2 (53 - 52) = 2" by (simp add: pow2_def)
  have m: "roundHalfEven (9007199254740993 / 2) = 4503599627370496"
    by (simp add: roundHalfEven_def Let_def)
  have t: "toDouble 9007199254740993 = Num (of_int 4503599627370496 * 2)"
    by (rule toDouble_eval [OF _ fl _ q m]) simp_all
  have "parseInt16 (''0x'' @ ''20000000000001'') = toDouble (of_nat (radixVal 16 ''20000000000001''))"
    by (rule parseInt16_prefixed) (simp_all add: isHexDigit_def)
  then have a: "hexToNumber ''0x20000000000001'' = Num (of_int 9007199254740992)"
    by (simp add: hexToNumber_def v t)
  have n: "natToRadix 16 9007199254740992 = ''20000000000000''"
    by (simp add: natToRadix.simps [of 16 "numeral k" for k] digitChar_def char_of_def bit_0)
  show ?thesis
    unfolding a using numberToHex_int [of 9007199254740992] by (simp add: n v)
qed

section \<open>Selectors\<close>

lemma selectors_paren: "map_of selectors sig = Some v \<Longrightarrow> CHR ''('' \<in> set sig"
  by (auto simp: selectors_def split: if_splits)

lemma commonSelectors_paren: "map_of commonSelectors sig = Some v \<Longrightarrow> CHR ''('' \<in> set sig"
  by (auto simp: commonSelectors_def split: if_splits)

lemma prototypeKeys_no_paren: "sig \<in> set objectPrototypeKeys \<Longrightarrow> CHR ''('' \<notin> set sig"
  by (auto simp: objectPrototypeKeys_def)

lemma prototypeKeys_not_selectors:
  assumes "sig \<in> set objectPrototypeKeys"
  shows "map_of selectors sig = None \<and> map_of commonSelectors sig = None"
proof -
  have "CHR ''('' \<notin> set sig" using assms by (rule prototypeKeys_no_paren)
  then have "\<And>v. map_of selectors sig \<noteq> Some v" "\<And>v. map_of commonSelectors sig \<noteq> Some v"
    using selectors_paren commonSelectors_paren by blast+
  then show ?thesis by (metis option.exhaust)
qed

lemma selectors_nonempty: "map_of selectors sig = Some v \<Longrightarrow> v \<noteq> [] \<and> length v = 10"
  by (auto simp: selectors_def split: if_splits)

lemma commonSelectors_nonempty: "map_of commonSelectors sig = Some v \<Longrightarrow> v \<noteq> [] \<and> length v = 10"
  by (auto simp: commonSelectors_def split: if_splits)

text \<open>
  Claim C9. \<open>getFunctionSelector\<close> and \<open>calculateFunctionSelector\<close> return the table's
  selector for a signature in their table, and the zero selector for a signature that is
  neither in the table nor the name of a member of \<open>Object.prototype\<close>. For such a name
  (\<open>constructor\<close>, \<open>toString\<close>, \<open>valueOf\<close>, ...) the lookup finds the inherited member,
  which is truthy, and the function returns it in place of the zero selector.
\<close>

theorem selector_lookup:
  "(map_of selectors sig = Some v \<longrightarrow> getFunctionSelector sig = Selector v)
   \<and> (map_of selectors sig = None \<and> sig \<notin> set objectPrototypeKeys
        \<longrightarrow> getFunctionSelector sig = Selector ''0x00000000'')
   \<and> (sig \<in> set objectPrototypeKeys \<longrightarrow> getFunctionSelector sig = PrototypeMember sig)
   \<and> (map_of commonSelectors sig = Some w \<longrightarrow> calculateFunctionSelector sig = Selector w)
   \<and> (map_of commonSelectors sig = None \<and> sig \<notin> set objectPrototypeKeys
        \<longrightarrow> calculateFunctionSelector sig = Selector ''0x00000000'')
   \<and> (sig \<in> set objectPrototypeKeys \<longrightarrow> calculateFunctionSelector sig = PrototypeMember sig)"
proof (intro conjI impI)
  assume "map_of selectors sig = Some v"
  then show "getFunctionSelector sig = Selector v"
    using selectors_nonempty [of sig v]
    by (simp add: getFunctionSelector_def getProperty_def orDefault_def)
next
  assume "map_of selectors sig = None \<and> sig \<notin> set objectPrototypeKeys"
  then show "getFunctionSelector sig = Selector ''0x00000000''"
    by (simp add: getFunctionSelector_def getProperty_def orDefault_def)
next
  assume "sig \<in> set objectPrototypeKeys"
  then show "getFunctionSelector sig = PrototypeMember sig"
    using prototypeKeys_not_selectors [of sig]
    by (simp add: getFunctionSelector_def getProperty_def orDefault_def)
next
  assume "map_of commonSelectors sig = Some w"
  then show "calculateFunctionSelector sig = Selector w"
    using commonSelectors_nonempty [of sig w]
    by (simp add: calculateFunctionSelector_def getProperty_def orDefault_def)
next
  assume "map_of commonSelectors sig = None \<and> sig \<notin> set objectPrototypeKeys"
  then show "calculateFunctionSelector sig = Selector ''0x00000000''"
    by (simp add: calculateFunctionSelector_def getProperty_def orDefault_def)
next
  assume "sig \<in> set objectPrototypeKeys"
  then show "calculateFunctionSelector sig = PrototypeMember sig"
    using prototypeKeys_not_selectors [of sig]
    by (simp add: calculateFunctionSelector_def getProperty_def orDefault_def)
qed

theorem selector_lookup_witness:
  "getFunctionSelector ''transfer(address,uint256)'' = Selector ''0xa9059cbb''
   \<and> getFunctionSelector ''getApproved(uint256)'' = Selector ''0x00000000''
   \<and> calculateFunctionSelector ''getApproved(uint256)'' = Selector ''0x081812fc''
   \<and> getFunctionSelector ''constructor'' = PrototypeMember ''constructor''
   \<and> calculateFunctionSelector ''valueOf'' = PrototypeMember ''valueOf''"
proof -
  have a: "getFunctionSelector ''transfer(address,uint256)'' = Selector ''0xa9059cbb''"
    by (rule selector_lookup [THEN conjunct1, THEN mp]) (simp add: selectors_def)
  have b: "getFunctionSelector ''getApproved(uint256)'' = Selector ''0x00000000''"
    by (rule selector_lookup [THEN conjunct2, THEN conjunct1, THEN mp])
       (simp add: selectors_def objectPrototypeKeys_def)
  have c: "calculateFunctionSelector ''getApproved(uint256)'' = Selector ''0x081812fc''"
    by (rule selector_lookup [THEN conjunct2, THEN conjunct2, THEN conjunct2, THEN conjunct1, THEN mp])
       (simp add: commonSelectors_def)
  have d: "getFunctionSelector ''constructor'' = PrototypeMember ''constructor''"
    by (rule selector_lookup [THEN conjunct2, THEN conjunct2, THEN conjunct1, THEN mp])
       (simp add: objectPrototypeKeys_def)
  have e: "calculateFunctionSelector ''valueOf'' = PrototypeMember ''valueOf''"
    by (rule selector_lookup [THEN conjunct2, THEN conjunct2, THEN conjunct2, THEN conjunct2,
          THEN conjunct2, THEN mp])
       (simp add: objectPrototypeKeys_def)
  from a b c d e show ?thesis by simp
qed

section \<open>Call data\<close>

lemma strip0x_prefixed [simp]: "strip0x (CHR ''0'' # CHR ''x'' # s) = s"
  by (simp add: strip0x_def startsWith_def)

lemma strip0x_hex:
  assumes "\<forall>c \<in> set s. isHexDigit c"
  shows "strip0x s = s"
proof -
  have "\<not> isHexDigit CHR ''x''" by (simp add: isHexDigit_def)
  then have "CHR ''x'' \<notin> set s" using assms by blast
  moreover have "take 2 s = ''0x'' \<Longrightarrow> CHR ''x'' \<in> set s"
    by (metis in_set_takeD list.set_intros(1,2))
  ultimately show ?thesis by (auto simp: strip0x_def startsWith_def numeral_2_eq_2)
qed

lemma natToRadix_length: "2 \<le> r \<Longrightarrow> 0 < k \<Longrightarrow> n < r ^ k \<Longrightarrow> length (natToRadix r n) \<le> k"
proof (induction r n arbitrary: k rule: natToRadix.induct)
  case (1 r n)
  show ?case
  proof (cases "n < r")
    case True
    then have "natToRadix r n = [digitChar n]" by (simp add: natToRadix.simps)
    then show ?thesis using "1.prems" by simp
  next
    case False
    then have u: "natToRadix r n = natToRadix r (n div r) @ [digitChar (n mod r)]"
      using "1.prems" by (subst natToRadix.simps) simp
    obtain j where k: "k = Suc j" using "1.prems"(2) by (cases k) auto
    have j: "0 < j"
    proof (rule ccontr)
      assume "\<not> 0 < j"
      then have "k = 1" using k by simp
      with "1.prems"(3) False show False by simp
    qed
    have "n < r * r ^ j" using "1.prems"(3) k by simp
    then have "n div r < r ^ j" using "1.prems"(1)
      by (simp add: less_mult_imp_div_less mult.commute)
    then have "length (natToRadix r (n div r)) \<le> j"
      using "1.IH" [of j] False "1.prems"(1) j by simp
    then show ?thesis by (simp add: u k)
  qed
qed

lemma lowerHex_hex: "isLowerHexDigit c \<Longrightarrow> isHexDigit c"
  by (rule lower_is_hex)

lemma padStart_word:
  assumes "length s \<le> 64" "\<forall>c \<in> set s. isHexDigit c"
  shows "length (padStart s 64 CHR ''0'') = 64 \<and> (\<forall>c \<in> set (padStart s 64 CHR ''0''). isHexDigit c)"
proof -
  have "isHexDigit CHR ''0''" by (simp add: isHexDigit_def)
  then show ?thesis using assms by (auto simp: padStart_def)
qed

lemma uint256_digits:
  assumes "0 \<le> b" "b < 2 ^ 256"
  shows "bigintToString 16 b = natToRadix 16 (nat b)"
    "length (natToRadix 16 (nat b)) \<le> 64"
    "\<forall>c \<in> set (natToRadix 16 (nat b)). isHexDigit c"
proof -
  show "bigintToString 16 b = natToRadix 16 (nat b)" using assms(1) by (simp add: bigintToString_def)
  have "nat b < 2 ^ 256" using assms by (simp add: nat_less_iff)
  also have "(2::nat) ^ 256 = 16 ^ 64" by simp
  finally show "length (natToRadix 16 (nat b)) \<le> 64" by (intro natToRadix_length) simp_all
  show "\<forall>c \<in> set (natToRadix 16 (nat b)). isHexDigit c"
    using natToRadix_lower [of 16 "nat b"] lower_is_hex by auto
qed

lemma word_address:
  assumes "ptype p = ''address''" "wellFormedValue p"
  shows "strip0x (encodeAddress (pvalue p)) = paramWord p"
    "length (paramWord p) = 64 \<and> (\<forall>c \<in> set (paramWord p). isHexDigit c)"
proof -
  from assms have len: "length (strip0x (pvalue p)) \<le> 64"
    and hex: "\<forall>c \<in> set (strip0x (pvalue p)). isHexDigit c"
    by (simp_all add: wellFormedValue_def list_all_iff)
  show "strip0x (encodeAddress (pvalue p)) = paramWord p"
    using assms(1) by (simp add: encodeAddress_def padHex_def paramWord_def strip0x_hex [OF hex])
  show "length (paramWord p) = 64 \<and> (\<forall>c \<in> set (paramWord p). isHexDigit c)"
    using padStart_word [OF len hex] assms(1) by (simp add: paramWord_def)
qed

lemma word_uint256:
  assumes "ptype p \<noteq> ''address''" "ptype p = ''uint256''" "wellFormedValue p"
  shows "\<exists>enc. encodeUint256 (pvalue p) = Inr enc \<and> strip0x enc = paramWord p"
    "length (paramWord p) = 64 \<and> (\<forall>c \<in> set (paramWord p). isHexDigit c)"
proof -
  from assms obtain b where b: "stringToBigInt (pvalue p) = Inr b" "0 \<le> b" "b < 2 ^ 256"
    by (auto simp: wellFormedValue_def split: sum.splits)
  note d = uint256_digits [OF b(2,3)]
  have w: "paramWord p = padStart (natToRadix 16 (nat b)) 64 CHR ''0''"
    using assms(1) by (simp add: paramWord_def b(1) d(1))
  have "encodeUint256 (pvalue p) = Inr (''0x'' @ padStart (natToRadix 16 (nat b)) 64 CHR ''0'')"
    by (simp add: encodeUint256_def b(1) d(1) padHex_def strip0x_hex [OF d(3)])
  then show "\<exists>enc. encodeUint256 (pvalue p) = Inr enc \<and> strip0x enc = paramWord p"
    by (simp add: w)
  show "length (paramWord p) = 64 \<and> (\<forall>c \<in> set (paramWord p). isHexDigit c)"
    unfolding w by (rule padStart_word [OF d(2,3)])
qed

lemma buildLoop_filter: "buildLoop data params = buildLoop data (filter encoded params)"
  by (induction params arbitrary: data) (auto simp: encoded_def split: sum.splits)

lemma buildLoop_wellFormed:
  assumes "\<forall>p \<in> set params. wellFormedValue p"
  shows "buildLoop (Data s) params = Inr (Data (s @ concat (map paramWord (filter encoded params))))"
  using assms
proof (induction params arbitrary: s)
  case Nil
  show ?case by simp
next
  case (Cons p ps)
  then have wf: "wellFormedValue p" and ih: "\<And>t. buildLoop (Data t) ps
      = Inr (Data (t @ concat (map paramWord (filter encoded ps))))" by simp_all
  show ?case
  proof (cases "ptype p = ''address''")
    case True
    then have "encoded p" by (simp add: encoded_def)
    then show ?thesis using True word_address(1) [OF True wf] ih by simp
  next
    case na: False
    show ?thesis
    proof (cases "ptype p = ''uint256''")
      case True
      from word_uint256(1) [OF na True wf] obtain enc
        where "encodeUint256 (pvalue p) = Inr enc" "strip0x enc = paramWord p" by blast
      moreover have "encoded p" using True by (simp add: encoded_def)
      ultimately show ?thesis using na True ih by simp
    next
      case False
      then have "\<not> encoded p" using na by (simp add: encoded_def)
      then show ?thesis using False na ih by simp
    qed
  qed
qed

lemma selector_length:
  assumes "sig \<notin> set objectPrototypeKeys"
  shows "\<exists>sel. getFunctionSelector sig = Selector sel \<and> length sel = 10"
proof (cases "map_of selectors sig")
  case None
  then show ?thesis using assms
    by (simp add: getFunctionSelector_def getProperty_def orDefault_def)
next
  case (Some v)
  then show ?thesis using selectors_nonempty [OF Some]
    by (simp add: getFunctionSelector_def getProperty_def orDefault_def)
qed

text \<open>
  Claim C10, as the code has it. A parameter whose type is neither \<open>address\<close> nor
  \<open>uint256\<close> is skipped without an error. When the signature is not the name of a member
  of \<open>Object.prototype\<close> and the values of the encoded parameters are well formed,
  \<open>buildCallData\<close> returns the selector, 10 characters, followed by one word of exactly
  64 hexadecimal characters for each \<open>address\<close> or \<open>uint256\<close> parameter, in parameter
  order: the value's digits padded with zeros on the left.
\<close>

theorem buildCallData_layout:
  "buildCallData sig params = buildCallData sig (filter encoded params)
   \<and> (sig \<notin> set objectPrototypeKeys \<and> (\<forall>p \<in> set params. wellFormedValue p)
        \<longrightarrow> (\<exists>sel. getFunctionSelector sig = Selector sel \<and> length sel = 10
              \<and> buildCallData sig params
                  = Inr (Data (sel @ concat (map paramWord (filter encoded params))))
              \<and> (\<forall>p \<in> set (filter encoded params).
                    length (paramWord p) = 64 \<and> (\<forall>c \<in> set (paramWord p). isHexDigit c))))"
proof (intro conjI impI)
  show "buildCallData sig params = buildCallData sig (filter encoded params)"
    unfolding buildCallData_def Let_def by (rule buildLoop_filter)
next
  assume h: "sig \<notin> set objectPrototypeKeys \<and> (\<forall>p \<in> set params. wellFormedValue p)"
  then obtain sel where sel: "getFunctionSelector sig = Selector sel" "length sel = 10"
    using selector_length by blast
  have words: "\<forall>p \<in> set (filter encoded params).
      length (paramWord p) = 64 \<and> (\<forall>c \<in> set (paramWord p). isHexDigit c)"
  proof
    fix p assume "p \<in> set (filter encoded params)"
    then have e: "encoded p" and wf: "wellFormedValue p" using h by simp_all
    show "length (paramWord p) = 64 \<and> (\<forall>c \<in> set (paramWord p). isHexDigit c)"
    proof (cases "ptype p = ''address''")
      case True
      then show ?thesis using word_address(2) [OF True wf] by simp
    next
      case False
      with e have "ptype p = ''uint256''" by (simp add: encoded_def)
      from word_uint256(2) [OF False this wf] show ?thesis .
    qed
  qed
  have "buildCallData sig params
      = Inr (Data (sel @ concat (map paramWord (filter encoded params))))"
    using h buildLoop_wellFormed [of params sel] by (simp add: buildCallData_def sel(1))
  with sel words show "\<exists>sel. getFunctionSelector sig = Selector sel \<and> length sel = 10
      \<and> buildCallData sig params = Inr (Data (sel @ concat (map paramWord (filter encoded params))))
      \<and> (\<forall>p \<in> set (filter encoded params).
            length (paramWord p) = 64 \<and> (\<forall>c \<in> set (paramWord p). isHexDigit c))"
    by blast
qed

theorem buildCallData_layout_witness:
  "buildCallData ''balanceOf(address)''
      [\<lparr>ptype = ''address'', pvalue = ''0x742d35Cc6634C0532925a3b844Bc454e4438f44e''\<rparr>,
       \<lparr>ptype = ''bool'', pvalue = ''true''\<rparr>,
       \<lparr>ptype = ''uint256'', pvalue = ''255''\<rparr>]
     = Inr (Data (''0x70a08231''
          @ ''000000000000000000000000742d35Cc6634C0532925a3b844Bc454e4438f44e''
          @ ''00000000000000000000000000000000000000000000000000000000000000ff''))"
proof -
  let ?a = "\<lparr>ptype = ''address'', pvalue = ''0x742d35Cc6634C0532925a3b844Bc454e4438f44e''\<rparr>"
  let ?b = "\<lparr>ptype = ''bool'', pvalue = ''true''\<rparr>"
  let ?u = "\<lparr>ptype = ''uint256'', pvalue = ''255''\<rparr>"
  have big: "stringToBigInt ''255'' = Inr 255"
    using stringToBigInt_decimal [of "''255''"] by (simp add: radixVal_def digitVal_def)
  have hexd: "natToRadix 16 255 = ''ff''"
    by (simp add: natToRadix.simps [of 16 "numeral k" for k] digitChar_def char_of_def bit_0)
  have wa: "wellFormedValue ?a"
    by (simp add: wellFormedValue_def strip0x_def startsWith_def isHexDigit_def)
  have wb: "wellFormedValue ?b" by (simp add: wellFormedValue_def)
  have wu: "wellFormedValue ?u" by (simp add: wellFormedValue_def big)
  have pa: "paramWord ?a = ''000000000000000000000000742d35Cc6634C0532925a3b844Bc454e4438f44e''"
    by (simp add: paramWord_def strip0x_def startsWith_def padStart_def eval_nat_numeral)
  have pu: "paramWord ?u = ''00000000000000000000000000000000000000000000000000000000000000ff''"
  proof -
    have "paramWord ?u = padStart ''ff'' 64 CHR ''0''"
      by (simp add: paramWord_def big bigintToString_def hexd)
    then show ?thesis by (simp add: padStart_def eval_nat_numeral)
  qed
  have sel: "getFunctionSelector ''balanceOf(address)'' = Selector ''0x70a08231''"
    by (simp add: getFunctionSelector_def getProperty_def orDefault_def selectors_def)
  have hyp: "''balanceOf(address)'' \<notin> set objectPrototypeKeys
      \<and> (\<forall>p \<in> set [?a, ?b, ?u]. wellFormedValue p)"
    using wa wb wu by (simp add: objectPrototypeKeys_def)
  from buildCallData_layout [of "''balanceOf(address)''" "[?a, ?b, ?u]"] hyp
  obtain s where "getFunctionSelector ''balanceOf(address)'' = Selector s"
    "buildCallData ''balanceOf(address)'' [?a, ?b, ?u]
       = Inr (Data (s @ concat (map paramWord (filter encoded [?a, ?b, ?u]))))"
    by blast
  then show ?thesis by (simp add: sel encoded_def pa pu)
qed

text \<open>
  Without well-formed values the words are not 64 hexadecimal characters: \<open>-1\<close> as
  a \<open>uint256\<close> is padded to 62 zeros and \<open>-1\<close>, \<open>1.5\<close> makes \<open>BigInt\<close> throw, and an
  address \<open>zz\<close> is padded as it is.
\<close>

theorem buildCallData_counterexample:
  "buildCallData ''tokenURI(uint256)'' [\<lparr>ptype = ''uint256'', pvalue = ''-1''\<rparr>]
     = Inr (Data (''0xc87b56dd'' @ replicate 62 CHR ''0'' @ ''-1''))
   \<and> buildCallData ''tokenURI(uint256)'' [\<lparr>ptype = ''uint256'', pvalue = ''1.5''\<rparr>]
     = Inl (SyntaxError ''1.5'')
   \<and> buildCallData ''balanceOf(address)'' [\<lparr>ptype = ''address'', pvalue = ''zz''\<rparr>]
     = Inr (Data (''0x70a08231'' @ replicate 62 CHR ''0'' @ ''zz''))"
proof -
  have m: "stringToBigInt ''-1'' = Inr (- 1)"
    by (simp add: stringToBigInt_def trim_def isWhiteSpace_def readDigits_def isRadixDigit_def
        digitVal_def radixVal_def)
  have f: "stringToBigInt ''1.5'' = Inl (SyntaxError ''1.5'')"
    by (simp add: stringToBigInt_def trim_def isWhiteSpace_def readDigits_def isRadixDigit_def
        digitVal_def)
  have one: "natToRadix 16 (Suc 0) = ''1''"
    using natToRadix.simps [of 16 1] by (simp add: digitChar_def char_of_def bit_0)
  have e: "encodeUint256 ''-1'' = Inr (''0x'' @ replicate 62 CHR ''0'' @ ''-1'')"
    by (simp add: encodeUint256_def m bigintToString_def one padHex_def strip0x_def
        startsWith_def padStart_def)
  have s1: "getFunctionSelector ''tokenURI(uint256)'' = Selector ''0xc87b56dd''"
    by (simp add: getFunctionSelector_def getProperty_def orDefault_def selectors_def)
  have s2: "getFunctionSelector ''balanceOf(address)'' = Selector ''0x70a08231''"
    by (simp add: getFunctionSelector_def getProperty_def orDefault_def selectors_def)
  have a: "strip0x (encodeAddress ''zz'') = replicate 62 CHR ''0'' @ ''zz''"
    by (simp add: encodeAddress_def padHex_def strip0x_def startsWith_def padStart_def)
  have "buildCallData ''tokenURI(uint256)'' [\<lparr>ptype = ''uint256'', pvalue = ''-1''\<rparr>]
     = Inr (Data (''0xc87b56dd'' @ replicate 62 CHR ''0'' @ ''-1''))"
    by (simp add: buildCallData_def s1 e)
  moreover have "buildCallData ''tokenURI(uint256)'' [\<lparr>ptype = ''uint256'', pvalue = ''1.5''\<rparr>]
     = Inl (SyntaxError ''1.5'')"
    by (simp add: buildCallData_def s1 encodeUint256_def f)
  moreover have "buildCallData ''balanceOf(address)'' [\<lparr>ptype = ''address'', pvalue = ''zz''\<rparr>]
     = Inr (Data (''0x70a08231'' @ replicate 62 CHR ''0'' @ ''zz''))"
    by (simp add: buildCallData_def s2 a)
  ultimately show ?thesis by simp
qed

section \<open>CHZ and Wei\<close>

declare rmatch.simps(5) [simp del]

lemma splitOn_plain: "c \<notin> set s \<Longrightarrow> splitOn c s = [s]"
  by (induction s) auto

lemma splitOn_point: "c \<notin> set w \<Longrightarrow> c \<notin> set f \<Longrightarrow> splitOn c (w @ c # f) = [w, f]"
  by (induction w) (auto simp: splitOn_plain)

lemma plus0_Nil: "rmatch (Plus (Lit CHR ''0'')) [] = []"
  by (simp add: rmatch.simps(5))

lemma plus0_Cons:
  "rmatch (Plus (Lit CHR ''0'')) (x # xs)
     = (if x = CHR ''0'' then rmatch (Plus (Lit CHR ''0'')) xs @ [xs] else [])"
  by (simp add: rmatch.simps(5))

lemma zeros_eol:
  "rmatch (Cat (Plus (Lit CHR ''0'')) Eol) s
     = (if s \<noteq> [] \<and> (\<forall>c \<in> set s. c = CHR ''0'') then [[]] else [])"
proof (induction s)
  case Nil
  show ?case by (simp add: plus0_Nil)
next
  case (Cons x xs)
  then have ih: "concat (map (rmatch Eol) (rmatch (Plus (Lit CHR ''0'')) xs))
      = (if xs \<noteq> [] \<and> (\<forall>c \<in> set xs. c = CHR ''0'') then [[]] else [])" by simp
  show ?case
  proof (cases "x = CHR ''0''")
    case True
    then show ?thesis using ih by (cases xs) (simp_all add: plus0_Cons)
  next
    case False
    then show ?thesis by (simp add: plus0_Cons)
  qed
qed

lemma trailingZeros_match:
  "rmatch trailingZeros s
     = (case s of
          [] \<Rightarrow> []
        | x # xs \<Rightarrow>
            (if x = CHR ''.'' then (if xs \<noteq> [] \<and> (\<forall>c \<in> set xs. c = CHR ''0'') then [[]] else [])
             else (if \<forall>c \<in> set (x # xs). c = CHR ''0'' then [[]] else [])))"
proof (cases s)
  case Nil
  then show ?thesis
    unfolding trailingZeros_def
    by (subst rmatch.simps(3)) (simp add: zeros_eol del: rmatch.simps(3))
next
  case (Cons x xs)
  have "rmatch trailingZeros s
      = concat (map (rmatch (Cat (Plus (Lit CHR ''0'')) Eol)) (rmatch (Opt (Lit CHR ''.'')) s))"
    unfolding trailingZeros_def by (subst rmatch.simps(3)) simp
  also have "rmatch (Opt (Lit CHR ''.'')) s = (if x = CHR ''.'' then [xs, s] else [s])"
    by (simp add: Cons)
  finally show ?thesis
    by (auto simp add: Cons zeros_eol simp del: rmatch.simps(3))
qed

lemma replace_fraction:
  assumes "CHR ''.'' \<notin> set s"
  shows "replaceFirstEmpty trailingZeros s = trimTrailingZeros s"
  using assms
proof (induction s)
  case Nil
  show ?case by (simp add: trimTrailingZeros_def)
next
  case (Cons x xs)
  then have ih: "replaceFirstEmpty trailingZeros xs = trimTrailingZeros xs"
    and x: "x \<noteq> CHR ''.''" by auto
  show ?case
  proof (cases "\<forall>c \<in> set (x # xs). c = CHR ''0''")
    case True
    then have "dropWhile (\<lambda>c. c = CHR ''0'') (rev (x # xs)) = []" by auto
    then show ?thesis using True x by (simp add: trailingZeros_match trimTrailingZeros_def)
  next
    case False
    have "trimTrailingZeros (x # xs) = x # trimTrailingZeros xs"
    proof (cases "\<forall>c \<in> set xs. c = CHR ''0''")
      case True
      with False have "x \<noteq> CHR ''0''" by auto
      moreover have "dropWhile (\<lambda>c. c = CHR ''0'') (rev xs) = []" using True by auto
      ultimately show ?thesis by (simp add: trimTrailingZeros_def dropWhile_append)
    next
      case False
      then have "dropWhile (\<lambda>c. c = CHR ''0'') (rev xs) \<noteq> []" by auto
      then show ?thesis by (simp add: trimTrailingZeros_def dropWhile_append)
    qed
    then show ?thesis using False x ih by (simp add: trailingZeros_match)
  qed
qed

lemma replace_decimal:
  assumes "\<forall>c \<in> set w. c \<noteq> CHR ''.''" "CHR ''.'' \<notin> set f" "f \<noteq> []"
  shows "replaceFirstEmpty trailingZeros (w @ CHR ''.'' # f)
     = w @ (if trimTrailingZeros f = [] then [] else CHR ''.'' # trimTrailingZeros f)"
  using assms(1)
proof (induction w)
  case Nil
  show ?case
  proof (cases "\<forall>c \<in> set f. c = CHR ''0''")
    case True
    then have "dropWhile (\<lambda>c. c = CHR ''0'') (rev f) = []" by auto
    then show ?thesis using True assms(3) by (simp add: trailingZeros_match trimTrailingZeros_def)
  next
    case False
    then have "dropWhile (\<lambda>c. c = CHR ''0'') (rev f) \<noteq> []" by auto
    then have "trimTrailingZeros f \<noteq> []" by (simp add: trimTrailingZeros_def)
    then show ?thesis using False assms(2,3) by (simp add: trailingZeros_match replace_fraction)
  qed
next
  case (Cons x xs)
  then have ih: "replaceFirstEmpty trailingZeros (xs @ CHR ''.'' # f)
     = xs @ (if trimTrailingZeros f = [] then [] else CHR ''.'' # trimTrailingZeros f)"
    and x: "x \<noteq> CHR ''.''" by auto
  have "\<not> (\<forall>c \<in> set (x # xs @ CHR ''.'' # f). c = CHR ''0'')" by auto
  then have "rmatch trailingZeros (x # xs @ CHR ''.'' # f) = []"
    using x by (simp add: trailingZeros_match)
  then show ?case using ih by simp
qed

lemma decDigit_val:
  assumes "isDecDigit c"
  shows "\<exists>v. digitVal c = Some v \<and> v < 10 \<and> digitChar v = c \<and> (v = 0) = (c = CHR ''0'')"
proof -
  from assms have r: "(48::nat) \<le> of_char c \<and> (of_char c::nat) \<le> 57"
    unfolding isDecDigit_def char_in_0_9 [symmetric] .
  define v where "v = (of_char c :: nat) - 48"
  have dv: "digitVal c = Some v" using r by (simp add: digitVal_def v_def)
  have lt: "v < 10" using r unfolding v_def by linarith
  have "digitChar v = char_of (of_char c :: nat)"
    using r lt by (simp add: digitChar_def v_def)
  then have dc: "digitChar v = c" by simp
  have "(v = 0) = (digitChar v = CHR ''0'')" using lt by (simp add: digitChar_zero)
  with dv lt dc show ?thesis by auto
qed

lemma decDigit_not_point: "isDecDigit c \<Longrightarrow> c \<noteq> CHR ''.''"
  by (auto simp: isDecDigit_def)

lemma natToRadix_step:
  assumes "2 \<le> r" "v < r"
  shows "natToRadix r (n * r + v) = (if n = 0 then [digitChar v] else natToRadix r n @ [digitChar v])"
proof (cases "n = 0")
  case True
  then show ?thesis using assms by (simp add: natToRadix.simps [of r v])
next
  case False
  then have "\<not> n * r + v < r" using assms by (simp add: not_less trans_le_add1)
  moreover have "(n * r + v) div r = n" "(n * r + v) mod r = v" using assms by simp_all
  ultimately show ?thesis using False assms(1)
    by (subst natToRadix.simps) simp
qed

lemma radixVal_zero:
  assumes "\<forall>c \<in> set ds. isDecDigit c"
  shows "(radixVal 10 ds = 0) = (\<forall>c \<in> set ds. c = CHR ''0'')"
  using assms
proof (induction ds rule: rev_induct)
  case Nil
  show ?case by (simp add: radixVal_def)
next
  case (snoc d ds)
  then have ih: "(radixVal 10 ds = 0) = (\<forall>c \<in> set ds. c = CHR ''0'')" and d: "isDecDigit d"
    by simp_all
  from decDigit_val [OF d] obtain v where v: "digitVal d = Some v" "(v = 0) = (d = CHR ''0'')"
    by blast
  show ?case using ih v by (auto simp: radixVal_snoc)
qed

lemma natToRadix_radixVal:
  assumes "\<forall>c \<in> set ds. isDecDigit c"
  shows "natToRadix 10 (radixVal 10 ds) = stripLeadingZeros ds"
  using assms
proof (induction ds rule: rev_induct)
  case Nil
  show ?case by (simp add: radixVal_def stripLeadingZeros_def natToRadix_zero)
next
  case (snoc d ds)
  then have ih: "natToRadix 10 (radixVal 10 ds) = stripLeadingZeros ds"
    and d: "isDecDigit d" and ds: "\<forall>c \<in> set ds. isDecDigit c" by simp_all
  from decDigit_val [OF d] obtain v
    where v: "digitVal d = Some v" "v < 10" "digitChar v = d" "(v = 0) = (d = CHR ''0'')"
    by blast
  have step: "natToRadix 10 (radixVal 10 (ds @ [d]))
      = (if radixVal 10 ds = 0 then [d] else natToRadix 10 (radixVal 10 ds) @ [d])"
    using natToRadix_step [of 10 v "radixVal 10 ds"] v by (simp add: radixVal_snoc)
  show ?case
  proof (cases "\<forall>c \<in> set ds. c = CHR ''0''")
    case True
    then have z: "radixVal 10 ds = 0" using radixVal_zero [OF ds] by simp
    have "dropWhile (\<lambda>c. c = CHR ''0'') ds = []" using True by auto
    then have "stripLeadingZeros (ds @ [d]) = [d]"
      by (simp add: stripLeadingZeros_def dropWhile_append)
    then show ?thesis using step z by simp
  next
    case False
    then have nz: "radixVal 10 ds \<noteq> 0" using radixVal_zero [OF ds] by simp
    from False have ne: "dropWhile (\<lambda>c. c = CHR ''0'') ds \<noteq> []" by auto
    then obtain e es where e: "dropWhile (\<lambda>c. c = CHR ''0'') ds = e # es"
      by (cases "dropWhile (\<lambda>c. c = CHR ''0'') ds") auto
    have "dropWhile (\<lambda>c. c = CHR ''0'') (ds @ [d]) = e # es @ [d]"
      using e False by (auto simp add: dropWhile_append)
    then have "stripLeadingZeros (ds @ [d]) = stripLeadingZeros ds @ [d]"
      using e by (simp add: stripLeadingZeros_def)
    then show ?thesis using step nz ih by simp
  qed
qed

lemma radixVal_append:
  "radixVal r (a @ b) = radixVal r a * r ^ length b + radixVal r b"
proof (induction b rule: rev_induct)
  case Nil
  show ?case by (simp add: radixVal_def)
next
  case (snoc x xs)
  have "radixVal r (a @ xs @ [x]) = radixVal r ((a @ xs) @ [x])" by simp
  also have "\<dots> = radixVal r (a @ xs) * r + (case digitVal x of Some v \<Rightarrow> v | None \<Rightarrow> 0)"
    by (rule radixVal_snoc)
  finally show ?case using snoc by (simp add: radixVal_snoc algebra_simps)
qed

lemma radixVal_bound:
  assumes "\<forall>c \<in> set ds. isDecDigit c"
  shows "radixVal 10 ds < 10 ^ length ds"
  using assms
proof (induction ds rule: rev_induct)
  case Nil
  show ?case by (simp add: radixVal_def)
next
  case (snoc d ds)
  then have ih: "radixVal 10 ds < 10 ^ length ds" and d: "isDecDigit d" by simp_all
  from decDigit_val [OF d] obtain v where v: "digitVal d = Some v" "v < 10" by blast
  from ih have "radixVal 10 ds + 1 \<le> 10 ^ length ds" by simp
  then have "(radixVal 10 ds + 1) * 10 \<le> 10 ^ length ds * 10" by (rule mult_le_mono1)
  then show ?case using v by (simp add: radixVal_snoc)
qed

lemma stripLeadingZeros_pad:
  assumes "p \<noteq> []"
  shows "padStart (stripLeadingZeros p) (length p) CHR ''0'' = p"
proof (cases "dropWhile (\<lambda>c. c = CHR ''0'') p")
  case Nil
  then have z: "\<forall>c \<in> set p. c = CHR ''0''" by (simp add: dropWhile_eq_Nil_conv)
  obtain k where k: "length p = Suc k" using assms by (cases p) auto
  have r: "replicate (length p) CHR ''0'' = p" using z by (rule replicate_length_same)
  have s: "stripLeadingZeros p = ''0''" by (simp only: stripLeadingZeros_def Nil list.case)
  have "padStart ''0'' (Suc k) CHR ''0'' = replicate (Suc k) CHR ''0''"
    by (simp add: padStart_def replicate_append_same)
  then have "padStart (stripLeadingZeros p) (length p) CHR ''0'' = replicate (length p) CHR ''0''"
    by (simp only: s k)
  then show ?thesis by (simp only: r)
next
  case (Cons e es)
  let ?P = "\<lambda>c. c = CHR ''0''"
  have "\<forall>c \<in> set (takeWhile ?P p). c = CHR ''0''" by (auto dest: set_takeWhileD)
  then have t: "replicate (length (takeWhile ?P p)) CHR ''0'' = takeWhile ?P p"
    by (rule replicate_length_same)
  have "length (takeWhile ?P p) + length (dropWhile ?P p) = length p"
    by (simp only: length_append [symmetric] takeWhile_dropWhile_id)
  then have l: "length p - length (dropWhile ?P p) = length (takeWhile ?P p)"
    by linarith
  have "stripLeadingZeros p = dropWhile ?P p"
    by (simp only: stripLeadingZeros_def Cons list.case)
  then have "padStart (stripLeadingZeros p) (length p) CHR ''0''
      = replicate (length p - length (dropWhile ?P p)) CHR ''0'' @ dropWhile ?P p"
    by (simp only: padStart_def)
  also have "\<dots> = takeWhile ?P p @ dropWhile ?P p" by (simp only: l t)
  also have "\<dots> = p" by (rule takeWhile_dropWhile_id)
  finally show ?thesis .
qed

lemma digitChar_dec: "v < 10 \<Longrightarrow> isDecDigit (digitChar v)"
proof -
  assume "v < 10"
  then have "(48::nat) \<le> of_char (digitChar v) \<and> (of_char (digitChar v)::nat) \<le> 57"
    by (simp add: digitChar_def)
  then show ?thesis unfolding isDecDigit_def char_in_0_9 .
qed

lemma natToRadix_dec: "\<forall>c \<in> set (natToRadix 10 n). isDecDigit c"
proof (induction "10::nat" n rule: natToRadix.induct)
  case (1 n)
  show ?case
  proof (cases "n < 10")
    case True
    then have "natToRadix 10 n = [digitChar n]" by (simp add: natToRadix.simps)
    then show ?thesis using True by (simp add: digitChar_dec)
  next
    case False
    then have u: "natToRadix 10 n = natToRadix 10 (n div 10) @ [digitChar (n mod 10)]"
      by (subst natToRadix.simps) simp
    have "\<forall>c \<in> set (natToRadix 10 (n div 10)). isDecDigit c" using "1" False by simp
    then show ?thesis by (simp add: u digitChar_dec)
  qed
qed

lemma bigint_nonneg:
  assumes "0 \<le> a" "0 < b"
  shows "bigintDiv a b = a div b" "bigintRem a b = a mod b"
proof -
  show "bigintDiv a b = a div b"
  proof (cases "a = 0")
    case True then show ?thesis by (simp add: bigintDiv_def)
  next
    case False
    with assms have "sgn a = 1" "sgn b = 1" "\<bar>a\<bar> = a" "\<bar>b\<bar> = b" by simp_all
    then show ?thesis by (simp add: bigintDiv_def)
  qed
  show "bigintRem a b = a mod b"
  proof (cases "a = 0")
    case True then show ?thesis by (simp add: bigintRem_def)
  next
    case False
    with assms have "sgn a = 1" "\<bar>a\<bar> = a" "\<bar>b\<bar> = b" by simp_all
    then show ?thesis by (simp add: bigintRem_def)
  qed
qed

lemma stripLeadingZeros_digits:
  assumes "\<forall>c \<in> set w. isDecDigit c"
  shows "stripLeadingZeros w \<noteq> []" "\<forall>c \<in> set (stripLeadingZeros w). isDecDigit c"
proof -
  show "stripLeadingZeros w \<noteq> []"
    by (simp add: stripLeadingZeros_def split: list.splits)
  have z: "isDecDigit CHR ''0''" by (simp add: isDecDigit_def)
  show "\<forall>c \<in> set (stripLeadingZeros w). isDecDigit c"
  proof (cases "dropWhile (\<lambda>c. c = CHR ''0'') w")
    case Nil
    then show ?thesis using z by (simp only: stripLeadingZeros_def list.case) simp
  next
    case (Cons e es)
    have "set (e # es) \<subseteq> set w" by (metis Cons set_dropWhileD subsetI)
    then show ?thesis using assms by (simp only: stripLeadingZeros_def Cons list.case) blast
  qed
qed

lemma dropWhile_replicate: "P x \<Longrightarrow> dropWhile P (replicate k x @ ys) = dropWhile P ys"
  by (induction k) simp_all

lemma trimTrailingZeros_padded:
  "trimTrailingZeros (f @ replicate k CHR ''0'') = trimTrailingZeros f"
  by (simp add: trimTrailingZeros_def dropWhile_replicate)

lemma stringToBigInt_natToRadix: "stringToBigInt (natToRadix 10 n) = Inr (int n)"
proof -
  have "\<forall>c \<in> set (natToRadix 10 n). c \<in> set ''0123456789''"
    using natToRadix_dec [of n] by (simp only: isDecDigit_def)
  from stringToBigInt_decimal [OF natToRadix_nonempty this]
  show ?thesis by (simp add: radixVal_natToRadix)
qed

lemma formatWeiToCHZ_digits:
  assumes w: "\<forall>c \<in> set w. isDecDigit c" and p: "\<forall>c \<in> set p. isDecDigit c"
    and len: "length p = 18"
  shows "formatWeiToCHZ (WeiString (natToRadix 10 (radixVal 10 (w @ p))))
     = Inr (canonicalDecimal w p)"
proof -
  define W where "W = radixVal 10 w"
  define P where "P = radixVal 10 p"
  have N: "radixVal 10 (w @ p) = W * 10 ^ 18 + P"
    by (simp add: radixVal_append len W_def P_def)
  have Pb: "P < 10 ^ 18" using radixVal_bound [OF p] by (simp add: len P_def)
  have nn: "0 \<le> int (W * 10 ^ 18 + P)" "(0::int) < 10 ^ 18" by simp_all
  have "int (W * 10 ^ 18 + P) div 10 ^ 18 = int ((W * 10 ^ 18 + P) div 10 ^ 18)"
    by (simp add: zdiv_int)
  also have "(W * 10 ^ 18 + P) div 10 ^ 18 = W" using Pb by simp
  finally have d: "bigintDiv (int (W * 10 ^ 18 + P)) (10 ^ 18) = int W"
    using bigint_nonneg(1) [OF nn] by simp
  have "int (W * 10 ^ 18 + P) mod 10 ^ 18 = int ((W * 10 ^ 18 + P) mod 10 ^ 18)"
    by (simp add: zmod_int)
  also have "(W * 10 ^ 18 + P) mod 10 ^ 18 = P" using Pb by simp
  finally have r: "bigintRem (int (W * 10 ^ 18 + P)) (10 ^ 18) = int P"
    using bigint_nonneg(2) [OF nn] by simp
  have ws: "bigintToString 10 (int W) = stripLeadingZeros w"
    using natToRadix_radixVal [OF w] by (simp add: bigintToString_def W_def)
  have pne: "p \<noteq> []" using len by auto
  have ps: "padStart (bigintToString 10 (int P)) 18 CHR ''0'' = p"
    using natToRadix_radixVal [OF p] stripLeadingZeros_pad [OF pne]
    by (simp add: bigintToString_def P_def len)
  have nopoint: "\<forall>c \<in> set (stripLeadingZeros w). c \<noteq> CHR ''.''" "CHR ''.'' \<notin> set p"
    using stripLeadingZeros_digits(2) [OF w] p decDigit_not_point by blast+
  have rep: "replaceFirstEmpty trailingZeros (stripLeadingZeros w @ CHR ''.'' # p)
      = canonicalDecimal w p"
    using replace_decimal [OF nopoint pne] by (simp add: canonicalDecimal_def)
  have ne: "canonicalDecimal w p \<noteq> []"
    using stripLeadingZeros_digits(1) [OF w] by (simp add: canonicalDecimal_def)
  show ?thesis
    unfolding formatWeiToCHZ_def N Let_def
    by (simp only: stringToBigInt_natToRadix wei.case sum.case d r ws ps append_Cons append_Nil
        rep ne if_False)
qed

lemma formatCHZToWei_parts:
  assumes w: "\<forall>c \<in> set w. isDecDigit c" and f: "\<forall>c \<in> set f. isDecDigit c"
    and len: "length f \<le> 18"
  shows "formatCHZToWei (w @ CHR ''.'' # f)
     = Inr (natToRadix 10 (radixVal 10 (w @ f @ replicate (18 - length f) CHR ''0'')))"
    "formatCHZToWei w = Inr (natToRadix 10 (radixVal 10 (w @ replicate 18 CHR ''0'')))"
proof -
  have nw: "CHR ''.'' \<notin> set w" and nf: "CHR ''.'' \<notin> set f"
    using w f decDigit_not_point by blast+
  have z: "isDecDigit CHR ''0''" by (simp add: isDecDigit_def)
  have pad: "take 18 (padEnd f 18 CHR ''0'') = f @ replicate (18 - length f) CHR ''0''"
    using len by (simp add: padEnd_def)
  have "\<And>k. \<forall>c \<in> set (w @ f @ replicate k CHR ''0''). isDecDigit c"
    using w f z by auto
  then have dig: "\<And>k. \<forall>c \<in> set (w @ f @ replicate k CHR ''0''). c \<in> set ''0123456789''"
    unfolding isDecDigit_def .
  have "\<forall>c \<in> set (w @ replicate 18 CHR ''0''). isDecDigit c"
    using w z by auto
  then have dig0: "\<forall>c \<in> set (w @ replicate 18 CHR ''0''). c \<in> set ''0123456789''"
    unfolding isDecDigit_def .
  have ne0: "w @ replicate 18 CHR ''0'' \<noteq> []" by simp
  have ne: "w @ f @ replicate (18 - length f) CHR ''0'' \<noteq> []" using len by auto
  have big: "stringToBigInt (w @ f @ replicate (18 - length f) CHR ''0'')
      = Inr (int (radixVal 10 (w @ f @ replicate (18 - length f) CHR ''0'')))"
    by (rule stringToBigInt_decimal [OF ne dig])
  show "formatCHZToWei (w @ CHR ''.'' # f)
     = Inr (natToRadix 10 (radixVal 10 (w @ f @ replicate (18 - length f) CHR ''0'')))"
    unfolding formatCHZToWei_def splitOn_point [OF nw nf] Let_def
    by (simp add: pad big bigintToString_def)
  have big0: "stringToBigInt (w @ replicate 18 CHR ''0'')
      = Inr (int (radixVal 10 (w @ replicate 18 CHR ''0'')))"
    by (rule stringToBigInt_decimal [OF ne0 dig0])
  show "formatCHZToWei w = Inr (natToRadix 10 (radixVal 10 (w @ replicate 18 CHR ''0'')))"
    unfolding formatCHZToWei_def splitOn_plain [OF nw] Let_def
    by (simp add: padEnd_def big0 bigintToString_def)
qed

lemma canonicalDecimal_padded:
  "canonicalDecimal w (f @ replicate k CHR ''0'') = canonicalDecimal w f"
  by (simp add: canonicalDecimal_def trimTrailingZeros_padded)

lemma roundtrip_parts:
  assumes w: "\<forall>c \<in> set w. isDecDigit c" and f: "\<forall>c \<in> set f. isDecDigit c"
    and len: "length f \<le> 18"
  shows "formatWeiToCHZ (WeiString (natToRadix 10
            (radixVal 10 (w @ f @ replicate (18 - length f) CHR ''0''))))
     = Inr (canonicalDecimal w f)"
proof -
  have z: "isDecDigit CHR ''0''" by (simp add: isDecDigit_def)
  have p: "\<forall>c \<in> set (f @ replicate (18 - length f) CHR ''0''). isDecDigit c"
    using f z by auto
  have l: "length (f @ replicate (18 - length f) CHR ''0'') = 18" using len by simp
  from formatWeiToCHZ_digits [OF w p l] show ?thesis
    by (simp only: canonicalDecimal_padded)
qed

text \<open>
  Claim C2, as the code has it. For a whole part \<open>w\<close> and a fraction \<open>f\<close> of decimal
  digits, \<open>f\<close> of at most 18, converting \<open>w.f\<close> (or \<open>w\<close> alone) with \<open>formatCHZToWei\<close>
  and back with \<open>formatWeiToCHZ\<close> returns the canonical decimal string of the same value:
  \<open>w\<close> without leading zeros (\<open>0\<close> when none is left), the point and \<open>f\<close> without trailing
  zeros, the point only when a fraction is left. When \<open>w\<close> has no leading zero to lose,
  this is the original string up to the trimming of the fraction.
\<close>

theorem chz_wei_roundtrip:
  assumes "\<forall>c \<in> set w. isDecDigit c" "\<forall>c \<in> set f. isDecDigit c" "length f \<le> 18"
  shows "(\<exists>wei. formatCHZToWei (w @ ''.'' @ f) = Inr wei
            \<and> formatWeiToCHZ (WeiString wei) = Inr (canonicalDecimal w f))
       \<and> (\<exists>wei. formatCHZToWei w = Inr wei
            \<and> formatWeiToCHZ (WeiString wei) = Inr (canonicalDecimal w []))
       \<and> (w = ''0'' \<or> (w \<noteq> [] \<and> hd w \<noteq> CHR ''0'')
            \<longrightarrow> canonicalDecimal w f
                = w @ (if trimTrailingZeros f = [] then [] else CHR ''.'' # trimTrailingZeros f))"
proof (intro conjI impI)
  show "\<exists>wei. formatCHZToWei (w @ ''.'' @ f) = Inr wei
            \<and> formatWeiToCHZ (WeiString wei) = Inr (canonicalDecimal w f)"
    using formatCHZToWei_parts(1) [OF assms] roundtrip_parts [OF assms] by simp
next
  have e: "\<forall>c \<in> set ([]::string). isDecDigit c" "length ([]::string) \<le> 18" by simp_all
  show "\<exists>wei. formatCHZToWei w = Inr wei
            \<and> formatWeiToCHZ (WeiString wei) = Inr (canonicalDecimal w [])"
    using formatCHZToWei_parts(2) [OF assms] roundtrip_parts [OF assms(1) e] by simp
next
  assume "w = ''0'' \<or> (w \<noteq> [] \<and> hd w \<noteq> CHR ''0'')"
  then have "stripLeadingZeros w = w"
    by (cases w) (auto simp: stripLeadingZeros_def)
  then show "canonicalDecimal w f
      = w @ (if trimTrailingZeros f = [] then [] else CHR ''.'' # trimTrailingZeros f)"
    by (simp add: canonicalDecimal_def)
qed

theorem chz_wei_roundtrip_witness:
  "(\<exists>wei. formatCHZToWei ''1.50'' = Inr wei \<and> formatWeiToCHZ (WeiString wei) = Inr ''1.5'')
   \<and> (\<exists>wei. formatCHZToWei ''10'' = Inr wei \<and> formatWeiToCHZ (WeiString wei) = Inr ''10'')"
proof -
  have a: "\<forall>c \<in> set ''1''. isDecDigit c" "\<forall>c \<in> set ''50''. isDecDigit c" "length ''50'' \<le> 18"
    by (simp_all add: isDecDigit_def)
  have b: "\<forall>c \<in> set ''10''. isDecDigit c" "\<forall>c \<in> set ''''. isDecDigit c" "length '''' \<le> 18"
    by (simp_all add: isDecDigit_def)
  have c: "canonicalDecimal ''1'' ''50'' = ''1.5''" "canonicalDecimal ''10'' [] = ''10''"
    by (simp_all add: canonicalDecimal_def stripLeadingZeros_def trimTrailingZeros_def)
  from chz_wei_roundtrip [OF a, THEN conjunct1]
    chz_wei_roundtrip [OF b, THEN conjunct2, THEN conjunct1]
  show ?thesis by (simp add: c)
qed

text \<open>
  Leading zeros of the whole part are not kept, and an empty whole part comes back as
  \<open>0\<close>: \<open>007.5\<close> returns as \<open>7.5\<close> and \<open>.5\<close> as \<open>0.5\<close>.
\<close>

theorem chz_wei_roundtrip_counterexample:
  "formatCHZToWei ''007.5'' = Inr ''7500000000000000000''
   \<and> formatWeiToCHZ (WeiString ''7500000000000000000'') = Inr ''7.5''
   \<and> formatCHZToWei ''.5'' = Inr ''500000000000000000''
   \<and> formatWeiToCHZ (WeiString ''500000000000000000'') = Inr ''0.5''"
proof -
  have a: "\<forall>c \<in> set ''007''. isDecDigit c" "\<forall>c \<in> set ''5''. isDecDigit c" "length ''5'' \<le> 18"
    by (simp_all add: isDecDigit_def)
  have b: "\<forall>c \<in> set ''''. isDecDigit c" by simp
  have p: "replicate 17 CHR ''0'' = ''00000000000000000''"
    by (simp add: eval_nat_numeral)
  have d1: "\<forall>c \<in> set ''007500000000000000000''. isDecDigit c"
    and d2: "\<forall>c \<in> set ''500000000000000000''. isDecDigit c"
    by (simp_all add: isDecDigit_def)
  have s1: "natToRadix 10 (radixVal 10 ''007500000000000000000'') = ''7500000000000000000''"
    unfolding natToRadix_radixVal [OF d1] by (simp add: stripLeadingZeros_def)
  have s2: "natToRadix 10 (radixVal 10 ''500000000000000000'') = ''500000000000000000''"
    unfolding natToRadix_radixVal [OF d2] by (simp add: stripLeadingZeros_def)
  have c: "canonicalDecimal ''007'' ''5'' = ''7.5''" "canonicalDecimal '''' ''5'' = ''0.5''"
    by (simp_all add: canonicalDecimal_def stripLeadingZeros_def trimTrailingZeros_def)
  have "formatCHZToWei ''007.5'' = Inr ''7500000000000000000''"
    using formatCHZToWei_parts(1) [OF a] by (simp add: p s1)
  moreover have "formatWeiToCHZ (WeiString ''7500000000000000000'') = Inr ''7.5''"
    using roundtrip_parts [OF a] by (simp add: p s1 c)
  moreover have "formatCHZToWei ''.5'' = Inr ''500000000000000000''"
    using formatCHZToWei_parts(1) [OF b a(2,3)] by (simp add: p s2)
  moreover have "formatWeiToCHZ (WeiString ''500000000000000000'') = Inr ''0.5''"
    using roundtrip_parts [OF b a(2,3)] by (simp add: p s2 c)
  ultimately show ?thesis by simp
qed

section \<open>Validation before requests\<close>









text \<open>
  \<open>getTokenHolders\<close> in the same file does not look at the address at all: whatever
  string it is given goes out in its one request.
\<close>

lemma getTokenHolders_request:
  "snd (getTokenHolders h present a limit)
     = [ChilizScan ''token'' ''tokenholderlist''
          [(''contractaddress'', a), (''page'', ''1''), (''offset'', natToRadix 10 limit)]]"
  by (simp add: getTokenHolders_def chilizScanRequest_def split: sum.splits prod.splits)

section \<open>The cursor of the polling trigger\<close>

text \<open>
  What \<open>parseInt\<close> returns has no fractional part, so it can always be printed in
  radix 16.
\<close>

lemma toDouble_form:
  assumes "x \<noteq> 0"
  shows "(toDouble x = PosInfinity \<or> toDouble x = NegInfinity)
       \<or> (\<exists>m. toDouble x = Num (of_int m * pow2 (max (floorLog2 \<bar>x\<bar>) (- 1022) - 52)))"
proof -
  define q where "q = pow2 (max (floorLog2 \<bar>x\<bar>) (- 1022) - 52)"
  define m where "m = roundHalfEven (\<bar>x\<bar> / q)"
  have t: "toDouble x
      = (if 2 ^ 1024 \<le> of_int m * q then (if x < 0 then NegInfinity else PosInfinity)
         else Num (if x < 0 then - (of_int m * q) else of_int m * q))"
    using assms by (simp add: toDouble_def Let_def q_def m_def)
  show ?thesis
  proof (cases "2 ^ 1024 \<le> of_int m * q")
    case True
    then show ?thesis using t by simp
  next
    case False
    show ?thesis
    proof (cases "x < 0")
      case True
      have "- (of_int m * q) = of_int (- m) * q" by simp
      then have "toDouble x = Num (of_int (- m) * q)" using t False True by simp
      then show ?thesis unfolding q_def by blast
    next
      case nn: False
      then have "toDouble x = Num (of_int m * q)" using t False by simp
      then show ?thesis unfolding q_def by blast
    qed
  qed
qed

lemma toDouble_int_integral:
  "\<exists>t. numberToString16 (toDouble (of_int n)) = Some t"
proof (cases "\<bar>n\<bar> \<le> 2 ^ 53")
  case True
  then show ?thesis by (simp add: toDouble_of_int numberToString16_def)
next
  case False
  then have big: "2 ^ 53 < \<bar>n\<bar>" by simp
  define a where "a = nat \<bar>n\<bar>"
  have a53: "2 ^ 53 < a" using big by (simp add: a_def)
  then have apos: "0 < a" by (meson less_trans zero_less_numeral zero_less_power)
  have abs_eq: "\<bar>of_int n :: rat\<bar> = of_nat a" by (simp add: a_def)
  have one_le: "(1::rat) \<le> of_nat a" using apos by simp
  define e where "e = bitLength a - 1"
  from bitLength_bounds [OF apos] have hi: "a < 2 ^ bitLength a" by simp
  have blpos: "0 < bitLength a" using apos by (subst bitLength.simps) simp
  then have bl: "bitLength a = Suc e" by (simp add: e_def)
  have fl: "floorLog2 (of_nat a) = int e"
    using one_le blpos by (simp add: floorLog2_def e_def)
  have e52: "52 \<le> e"
  proof (rule ccontr)
    assume "\<not> 52 \<le> e"
    then have "Suc e \<le> 53" by simp
    then have "(2::nat) ^ Suc e \<le> 2 ^ 53" by (rule power_increasing) simp
    with hi bl a53 show False by simp
  qed
  then have q: "pow2 (int e - 52) = 2 ^ (e - 52)"
    by (simp add: pow2_def nat_diff_distrib')
  have mx: "max (floorLog2 \<bar>of_int n :: rat\<bar>) (- 1022) = int e"
    by (simp add: abs_eq fl)
  have nz: "(of_int n :: rat) \<noteq> 0" using big by auto
  from toDouble_form [OF nz] show ?thesis
  proof
    assume "toDouble (of_int n) = PosInfinity \<or> toDouble (of_int n) = NegInfinity"
    then show ?thesis by (auto simp: numberToString16_def)
  next
    assume "\<exists>m. toDouble (of_int n)
        = Num (of_int m * pow2 (max (floorLog2 \<bar>of_int n :: rat\<bar>) (- 1022) - 52))"
    then obtain m where "toDouble (of_int n) = Num (of_int m * 2 ^ (e - 52))"
      unfolding mx q by blast
    then have "toDouble (of_int n) = Num (of_int (m * 2 ^ (e - 52)))" by simp
    then show ?thesis
      by (simp add: numberToString16_def del: of_int_mult of_int_power)
  qed
qed

lemma parseInt16_printable: "\<exists>t. numberToHex (OfNumber (parseInt16 s)) = Some t"
proof -
  have "\<exists>t. numberToString16 (parseInt16 s) = Some t"
    unfolding parseInt16_def Let_def
    using toDouble_int_integral by (simp add: numberToString16_def)
  then show ?thesis by (auto simp: numberToHex_def)
qed













end
